theory Spec2Isabelle
  imports Complex_Main
begin

section \<open>Python values and exceptions\<close>

text \<open>
  The replay buffers of \<^verbatim>\<open>torchrl/data/replay_buffers/replay_buffers.py\<close> are Python
  objects that are mutated in place. An operation is modelled as a function from the
  state before the call to a pair of an outcome and the state after the call. The
  state is returned for a raised exception as well: a Python exception does not undo
  the assignments made before it.

  Python integers are \<open>int\<close>; floor division and modulo on \<open>int\<close> agree with Python's
  for a non-zero divisor. Floats are idealised as \<open>real\<close>.
\<close>

datatype error =
    PyException \<comment> \<open>\<^verbatim>\<open>raise Exception(...)\<close>\<close>
  | RuntimeError
  | ValueError
  | TypeError
  | IndexError
  | ZeroDivisionError
  | SegmentTreeIndex \<comment> \<open>a leaf index outside the range of a segment tree\<close>
  | FloatDomain \<comment> \<open>a float operation whose result is not a finite real\<close>

text \<open>\<^verbatim>\<open>xs[i]\<close> and \<^verbatim>\<open>xs[i] = v\<close> on a Python list: an index in \<open>[-len, 0)\<close> counts from
  the end, an index outside \<open>[-len, len)\<close> raises IndexError (here \<open>None\<close>).\<close>

definition py_getitem :: "'a list \<Rightarrow> int \<Rightarrow> 'a option" where
  "py_getitem xs i =
     (let n = int (length xs) in
      if 0 \<le> i \<and> i < n then Some (xs ! nat i)
      else if - n \<le> i \<and> i < 0 then Some (xs ! nat (n + i))
      else None)"

definition py_setitem :: "'a list \<Rightarrow> int \<Rightarrow> 'a \<Rightarrow> 'a list option" where
  "py_setitem xs i v =
     (let n = int (length xs) in
      if 0 \<le> i \<and> i < n then Some (xs[nat i := v])
      else if - n \<le> i \<and> i < 0 then Some (xs[nat (n + i) := v])
      else None)"

text \<open>An index is an \<^verbatim>\<open>int\<close> or an array of integers: \<^verbatim>\<open>add\<close> returns an \<^verbatim>\<open>int\<close>, \<^verbatim>\<open>extend\<close>
  an array, and \<^verbatim>\<open>__getitem__\<close> and \<^verbatim>\<open>update_priority\<close> take either.\<close>

datatype slots = IInt int | IArr "int list"

text \<open>A payload as \<^verbatim>\<open>__getitem__\<close> sees it: \<^verbatim>\<open>isinstance(data, list)\<close> holds of a Python list
  and of nothing else.\<close>

datatype 'v pyval = Atom 'v | PyList "'v pyval list"

text \<open>The loop \<^verbatim>\<open>for i, v in enumerate(vs): storage[k + i] = v\<close>. The flag tells whether
  the loop ran to its end; the list is the storage when the loop stopped, so the writes
  made before an IndexError are kept.\<close>

fun store_loop :: "'a list \<Rightarrow> int \<Rightarrow> 'a list \<Rightarrow> bool \<times> 'a list" where
  "store_loop st k [] = (True, st)"
| "store_loop st k (v # vs) =
     (case py_setitem st k v of
        None \<Rightarrow> (False, st)
      | Some st' \<Rightarrow> store_loop st' (k + 1) vs)"

section \<open>ReplayBuffer: the circular storage\<close>

record 'a ReplayBuffer =
  storage :: "'a list"
  capacity :: int
  cursor :: int

text \<open>\<^verbatim>\<open>ReplayBuffer.__init__(size, ...)\<close>: no statement of the constructor checks
  \<^verbatim>\<open>size\<close>, and none raises.\<close>

definition ReplayBuffer_init :: "int \<Rightarrow> error + 'a ReplayBuffer" where
  "ReplayBuffer_init sz = Inr \<lparr>storage = [], capacity = sz, cursor = 0\<rparr>"

definition ReplayBuffer_len :: "('a, 'z) ReplayBuffer_scheme \<Rightarrow> int" where
  "ReplayBuffer_len s = int (length (storage s))"

text \<open>
  The end of \<^verbatim>\<open>ReplayBuffer.__getitem__\<close> and its decorator \<^verbatim>\<open>pin_memory_output\<close>: a list is
  handed to \<^verbatim>\<open>self._collate_fn\<close>, and with \<^verbatim>\<open>self._pin_memory\<close> set the output is pinned. The
  collate function is the one given to the constructor; it and the pinning of an output
  (of each component of a tuple) are arguments here, and either may raise.
\<close>

definition collate_and_pin ::
  "('v pyval list \<Rightarrow> error + 'v pyval) \<Rightarrow> bool \<Rightarrow> ('v pyval \<Rightarrow> error + 'v pyval) \<Rightarrow>
     'v pyval \<Rightarrow> error + 'v pyval" where
  "collate_and_pin collate_fn pin_memory pin data =
     (case (case data of PyList xs \<Rightarrow> collate_fn xs | Atom v \<Rightarrow> Inr data) of
        Inl e \<Rightarrow> Inl e
      | Inr output \<Rightarrow> if pin_memory then pin output else Inr output)"

text \<open>\<^verbatim>\<open>ReplayBuffer.__getitem__\<close>: at an \<^verbatim>\<open>int\<close> index \<^verbatim>\<open>data = self._storage[index]\<close>, at an
  array \<^verbatim>\<open>data = [self._storage[i] for i in index]\<close>, which is a list.\<close>

definition ReplayBuffer_getitem ::
  "('v pyval, 'z) ReplayBuffer_scheme \<Rightarrow> ('v pyval list \<Rightarrow> error + 'v pyval) \<Rightarrow> bool \<Rightarrow>
     ('v pyval \<Rightarrow> error + 'v pyval) \<Rightarrow> slots \<Rightarrow> error + 'v pyval" where
  "ReplayBuffer_getitem s collate_fn pin_memory pin index =
     (case (case index of
              IInt i \<Rightarrow>
                (case py_getitem (storage s) i of
                   None \<Rightarrow> Inl IndexError
                 | Some data \<Rightarrow> Inr data)
            | IArr is \<Rightarrow>
                (case those (map (py_getitem (storage s)) is) of
                   None \<Rightarrow> Inl IndexError
                 | Some data \<Rightarrow> Inr (PyList data))) of
        Inl e \<Rightarrow> Inl e
      | Inr data \<Rightarrow> collate_and_pin collate_fn pin_memory pin data)"

text \<open>\<^verbatim>\<open>ReplayBuffer.add\<close>. The storage is written before the cursor is advanced, so the
  ZeroDivisionError of \<^verbatim>\<open>% self._capacity\<close> at capacity 0 comes after the write.\<close>

definition ReplayBuffer_add ::
  "('a, 'z) ReplayBuffer_scheme \<Rightarrow> 'a \<Rightarrow> (error + int) \<times> ('a, 'z) ReplayBuffer_scheme" where
  "ReplayBuffer_add s data =
     (let ret = cursor s in
      case (if cursor s \<ge> int (length (storage s)) then Some (storage s @ [data])
            else py_setitem (storage s) (cursor s) data) of
        None \<Rightarrow> (Inl IndexError, s)
      | Some st \<Rightarrow>
          if capacity s = 0 then (Inl ZeroDivisionError, s\<lparr>storage := st\<rparr>)
          else (Inr ret, s\<lparr>storage := st, cursor := (cursor s + 1) mod capacity s\<rparr>))"

text \<open>
  \<^verbatim>\<open>ReplayBuffer.extend\<close>, branch by branch. \<^verbatim>\<open>np.arange(a, b)\<close> is \<open>[a..b - 1]\<close>.
  \<^item> In the first branch \<open>cur_size + batch_size \<le> capacity\<close> with a non-empty batch makes
    the capacity positive, so the modulo cannot raise.
  \<^item> In the second branch \<open>0 < d < batch_size\<close>, so \<^verbatim>\<open>data[:d]\<close> and \<^verbatim>\<open>data[d:]\<close> are
    \<open>take\<close> and \<open>drop\<close>, and the two slices of \<^verbatim>\<open>index\<close> have the lengths of the ranges
    assigned to them.
  \<^item> In the last branch \<open>d < batch_size\<close>. For \<open>d < 0\<close> (a cursor beyond the capacity)
    \<^verbatim>\<open>np.arange(self._cursor, self._capacity)\<close> is empty and \<^verbatim>\<open>np.arange(batch_size - d)\<close>
    is longer than the batch, so one of the two slice assignments to \<^verbatim>\<open>index\<close> raises
    NumPy's ValueError before the storage is touched.
\<close>

definition ReplayBuffer_extend ::
  "('a, 'z) ReplayBuffer_scheme \<Rightarrow> 'a list \<Rightarrow>
     (error + int list) \<times> ('a, 'z) ReplayBuffer_scheme" where
  "ReplayBuffer_extend s data =
     (if length data = 0 then (Inl PyException, s)
      else
        let cur_size = int (length (storage s));
            batch_size = int (length data);
            c = cursor s;
            cap = capacity s
        in
        if cur_size + batch_size \<le> cap then
          (Inr [cur_size..cur_size + batch_size - 1],
           s\<lparr>storage := storage s @ data, cursor := (c + batch_size) mod cap\<rparr>)
        else if cur_size < cap then
          (let d = cap - cur_size;
               index = [cur_size..cap - 1] @ [0..batch_size - d - 1];
               (ok, st) = store_loop (storage s @ take (nat d) data) 0 (drop (nat d) data)
           in if ok then (Inr index, s\<lparr>storage := st, cursor := batch_size - d\<rparr>)
              else (Inl IndexError, s\<lparr>storage := st\<rparr>))
        else if c + batch_size \<le> cap then
          (let index = [c..c + batch_size - 1];
               (ok, st) = store_loop (storage s) c data
           in if \<not> ok then (Inl IndexError, s\<lparr>storage := st\<rparr>)
              else if cap = 0 then (Inl ZeroDivisionError, s\<lparr>storage := st\<rparr>)
              else (Inr index, s\<lparr>storage := st, cursor := (c + batch_size) mod cap\<rparr>))
        else
          (let d = cap - c in
           if d < 0 then (Inl ValueError, s)
           else
             let index = [c..cap - 1] @ [0..batch_size - d - 1];
                 (ok1, st1) = store_loop (storage s) c (take (nat d) data)
             in if \<not> ok1 then (Inl IndexError, s\<lparr>storage := st1\<rparr>)
                else
                  let (ok2, st2) = store_loop st1 0 (drop (nat d) data)
                  in if \<not> ok2 then (Inl IndexError, s\<lparr>storage := st2\<rparr>)
                     else (Inr index, s\<lparr>storage := st2, cursor := batch_size - d\<rparr>)))"

section \<open>Segment trees\<close>

text \<open>
  The classes \<^verbatim>\<open>SumSegmentTree\<close> and \<^verbatim>\<open>MinSegmentTree\<close> come from the compiled extension
  \<^verbatim>\<open>torchrl._torchrl\<close>, whose source is not part of the Python sources of the replay buffers.
  They are modelled from the spec. The spec gives a tree a fixed number \<open>N\<close> of leaves
  and inner nodes that hold the aggregates of their children; every operation it
  describes is determined by the leaves, so the model keeps the list of the \<open>N\<close> leaves
  and computes an aggregate from them.
\<close>

text \<open>Modelled from the spec: a leaf of the min tree, absent from the sources; the leaves
  not yet written hold the identity \<open>+\<infinity>\<close> of the minimum.\<close>

datatype minval = Finite real | PosInf

text \<open>Modelled from the spec: the aggregate of the min tree, absent from the sources.\<close>

fun min_mv :: "minval \<Rightarrow> minval \<Rightarrow> minval" where
  "min_mv PosInf y = y"
| "min_mv x PosInf = x"
| "min_mv (Finite a) (Finite b) = Finite (min a b)"

text \<open>Modelled from the spec: the constructor \<^verbatim>\<open>SumSegmentTree(size)\<close>, absent from the
  sources; every leaf holds the identity \<open>0\<close> of the sum.\<close>

definition SumSegmentTree :: "int \<Rightarrow> real list" where
  "SumSegmentTree n = replicate (nat n) 0"

text \<open>Modelled from the spec: the constructor \<^verbatim>\<open>MinSegmentTree(size)\<close>, absent from the
  sources; every leaf holds \<open>+\<infinity>\<close>.\<close>

definition MinSegmentTree :: "int \<Rightarrow> minval list" where
  "MinSegmentTree n = replicate (nat n) PosInf"

text \<open>Modelled from the spec: the read \<^verbatim>\<open>tree[i]\<close> of a leaf, absent from the sources. The
  spec speaks of the leaves \<open>0 \<le> i < N\<close> only; the model answers \<open>None\<close> elsewhere.\<close>

definition tree_get :: "'v list \<Rightarrow> int \<Rightarrow> 'v option" where
  "tree_get t i = (if 0 \<le> i \<and> i < int (length t) then Some (t ! nat i) else None)"

text \<open>Modelled from the spec: \<open>set(i, v)\<close>, absent from the sources, writes leaf \<open>i\<close> for
  \<open>0 \<le> i < N\<close>; the model answers \<open>None\<close> elsewhere.\<close>

definition tree_set :: "'v list \<Rightarrow> int \<Rightarrow> 'v \<Rightarrow> 'v list option" where
  "tree_set t i v = (if 0 \<le> i \<and> i < int (length t) then Some (t[nat i := v]) else None)"

text \<open>Modelled from the spec: the vectorised \<open>set(indices, values)\<close>, absent from the
  sources, writes its pairs in order, so the last write to a repeated index wins.\<close>

fun tree_set_many :: "'v list \<Rightarrow> (int \<times> 'v) list \<Rightarrow> 'v list option" where
  "tree_set_many t [] = Some t"
| "tree_set_many t ((i, v) # ps) =
     (case tree_set t i v of None \<Rightarrow> None | Some t' \<Rightarrow> tree_set_many t' ps)"

text \<open>Modelled from the spec: the leaves in \<open>[lo, hi)\<close> that \<open>query(lo, hi)\<close>, absent from
  the sources, aggregates.\<close>

definition leaves_between :: "'v list \<Rightarrow> int \<Rightarrow> int \<Rightarrow> 'v list" where
  "leaves_between t lo hi = take (nat (hi - lo)) (drop (nat lo) t)"

text \<open>Modelled from the spec: \<open>query(lo, hi)\<close> of the sum tree, absent from the sources.\<close>

definition sum_query :: "real list \<Rightarrow> int \<Rightarrow> int \<Rightarrow> real" where
  "sum_query t lo hi = sum_list (leaves_between t lo hi)"

text \<open>Modelled from the spec: \<open>query(lo, hi)\<close> of the min tree, absent from the sources.\<close>

definition min_query :: "minval list \<Rightarrow> int \<Rightarrow> int \<Rightarrow> minval" where
  "min_query t lo hi = fold min_mv (leaves_between t lo hi) PosInf"

text \<open>Modelled from the spec: \<open>scan_lower_bound(mass)\<close>, absent from the sources, is the
  smallest leaf index whose prefix sum is strictly greater than \<open>mass\<close>. The spec
  defines the scan for a mass in \<open>[0, total)\<close>; for a larger mass this function runs
  off the end and returns the number of leaves.\<close>

fun scan_lower_bound :: "real list \<Rightarrow> real \<Rightarrow> nat" where
  "scan_lower_bound [] mass = 0"
| "scan_lower_bound (x # xs) mass =
     (if mass < x then 0 else Suc (scan_lower_bound xs (mass - x)))"

section \<open>Float operations\<close>

text \<open>
  \<^verbatim>\<open>np.power(x, a)\<close> and the float \<^verbatim>\<open>x ** a\<close>, on reals. For a positive base the result is
  \<open>x powr a\<close>; a zero base gives 1 for the exponent 0 and 0 for a positive exponent; a
  negative base with an integral exponent gives the integer power. Rounding and
  overflow are left out. In the remaining cases the source's result is no finite real
  (\<^verbatim>\<open>inf\<close>, \<^verbatim>\<open>nan\<close>, a complex number or a ZeroDivisionError, depending on the float type
  at hand), and where it is \<^verbatim>\<open>inf\<close> or \<^verbatim>\<open>nan\<close> the program goes on and stores it. The model
  does not follow the program there: it answers \<open>None\<close> and the operation that asked
  ends with \<open>FloatDomain\<close>.
\<close>

definition np_power :: "real \<Rightarrow> real \<Rightarrow> real option" where
  "np_power x a =
     (if 0 < x then Some (x powr a)
      else if x = 0 then (if a < 0 then None else if a = 0 then Some 1 else Some 0)
      else if a = of_int \<lfloor>a\<rfloor> then Some (x powi \<lfloor>a\<rfloor>)
      else None)"

text \<open>A priority argument is a float or an array of floats. The helper \<^verbatim>\<open>to_numpy\<close> of
  \<^verbatim>\<open>torchrl.data.replay_buffers.utils\<close> is not among the sources; it turns a tensor into
  the array of the same values, so it does not appear in the model.\<close>

datatype priority = PFloat real | PArray "real list"

text \<open>\<^verbatim>\<open>np.max(priority)\<close>; NumPy raises ValueError on an empty array.\<close>

fun np_max :: "priority \<Rightarrow> real option" where
  "np_max (PFloat p) = Some p"
| "np_max (PArray []) = None"
| "np_max (PArray (p # ps)) = Some (fold max ps p)"

text \<open>\<^verbatim>\<open>np.power(priority + self._eps, self._alpha)\<close>, elementwise on an array.\<close>

fun power_priority :: "real \<Rightarrow> real \<Rightarrow> priority \<Rightarrow> priority option" where
  "power_priority e a (PFloat p) = map_option PFloat (np_power (p + e) a)"
| "power_priority e a (PArray ps) =
     map_option PArray (those (map (\<lambda>p. np_power (p + e) a) ps))"

section \<open>PrioritizedReplayBuffer\<close>

record 'a PrioritizedReplayBuffer = "'a ReplayBuffer" +
  alpha :: real
  beta :: real
  eps :: real
  sum_tree :: "real list"
  min_tree :: "minval list"
  max_priority :: real

text \<open>\<^verbatim>\<open>PrioritizedReplayBuffer.__init__\<close>: the constructor of the base class, then the
  checks of \<^verbatim>\<open>alpha\<close> and \<^verbatim>\<open>beta\<close>, then the fields.\<close>

definition PrioritizedReplayBuffer_init ::
  "int \<Rightarrow> real \<Rightarrow> real \<Rightarrow> real \<Rightarrow> error + 'a PrioritizedReplayBuffer" where
  "PrioritizedReplayBuffer_init sz a b e =
     (if a \<le> 0 then Inl ValueError
      else if b < 0 then Inl ValueError
      else Inr \<lparr>storage = [], capacity = sz, cursor = 0,
                alpha = a, beta = b, eps = e,
                sum_tree = SumSegmentTree sz, min_tree = MinSegmentTree sz,
                max_priority = 1\<rparr>)"

text \<open>The property \<^verbatim>\<open>_default_priority\<close>: \<^verbatim>\<open>(self._max_priority + self._eps) ** self._alpha\<close>.\<close>

definition default_priority :: "('a, 'z) PrioritizedReplayBuffer_scheme \<Rightarrow> real option" where
  "default_priority s = np_power (max_priority s + eps s) (alpha s)"

text \<open>The first block of \<^verbatim>\<open>_add_or_extend\<close>: the priority to store, and the state with
  \<^verbatim>\<open>_max_priority\<close> raised when a priority was given.\<close>

definition stored_priority ::
  "('a, 'z) PrioritizedReplayBuffer_scheme \<Rightarrow> priority option \<Rightarrow>
     (error + priority) \<times> ('a, 'z) PrioritizedReplayBuffer_scheme" where
  "stored_priority s priority =
     (case priority of
        Some p \<Rightarrow>
          (case np_max p of
             None \<Rightarrow> (Inl ValueError, s)
           | Some mp \<Rightarrow>
               let s1 = s\<lparr>max_priority := max (max_priority s) mp\<rparr> in
               (case power_priority (eps s) (alpha s) p of
                  None \<Rightarrow> (Inl FloatDomain, s1)
                | Some q \<Rightarrow> (Inr q, s1)))
      | None \<Rightarrow>
          (case default_priority s of
             None \<Rightarrow> (Inl FloatDomain, s)
           | Some v \<Rightarrow> (Inr (PFloat v), s)))"

text \<open>The test before the trees are written: a float passes, an array of length 1
  passes, and otherwise \<^verbatim>\<open>len(index)\<close> is taken, which raises TypeError on the \<^verbatim>\<open>int\<close>
  that \<^verbatim>\<open>add\<close> returned.\<close>

definition priority_shape_error :: "priority \<Rightarrow> slots \<Rightarrow> error option" where
  "priority_shape_error q ix =
     (case q of
        PFloat v \<Rightarrow> None
      | PArray ps \<Rightarrow>
          if length ps = 1 then None
          else (case ix of
                  IInt i \<Rightarrow> Some TypeError
                | IArr is \<Rightarrow> if length ps = length is then None else Some RuntimeError))"

text \<open>The slots of an index, as a list.\<close>

definition index_list :: "slots \<Rightarrow> int list" where
  "index_list ix = (case ix of IInt i \<Rightarrow> [i] | IArr is \<Rightarrow> is)"

text \<open>
  Modelled from the spec: the pairs that \<^verbatim>\<open>tree[index] = priority\<close> writes. The binding of
  \<^verbatim>\<open>__setitem__\<close> is part of the absent extension; following the spec, a scalar or an
  array of length 1 is written to every index, and an array of the length of the index
  is written position by position.
\<close>

definition leaf_writes :: "slots \<Rightarrow> priority \<Rightarrow> (int \<times> real) list" where
  "leaf_writes ix q =
     (case q of
        PFloat v \<Rightarrow> map (\<lambda>i. (i, v)) (index_list ix)
      | PArray ps \<Rightarrow>
          if length ps = 1 then map (\<lambda>i. (i, hd ps)) (index_list ix)
          else zip (index_list ix) ps)"

text \<open>\<^verbatim>\<open>self._sum_tree[index] = priority; self._min_tree[index] = priority\<close>.\<close>

definition write_trees ::
  "('a, 'z) PrioritizedReplayBuffer_scheme \<Rightarrow> slots \<Rightarrow> priority \<Rightarrow>
     error + ('a, 'z) PrioritizedReplayBuffer_scheme" where
  "write_trees s ix q =
     (case tree_set_many (sum_tree s) (leaf_writes ix q) of
        None \<Rightarrow> Inl SegmentTreeIndex
      | Some st \<Rightarrow>
          (case tree_set_many (min_tree s) (map (\<lambda>(i, v). (i, Finite v)) (leaf_writes ix q)) of
             None \<Rightarrow> Inl SegmentTreeIndex
           | Some mt \<Rightarrow> Inr (s\<lparr>sum_tree := st, min_tree := mt\<rparr>)))"

text \<open>\<^verbatim>\<open>_add_or_extend(data, priority, do_add)\<close>. The pair of \<^verbatim>\<open>data\<close> and \<^verbatim>\<open>do_add\<close> is a
  sum here: \<open>Inl x\<close> is one payload for \<^verbatim>\<open>add\<close>, \<open>Inr xs\<close> a batch for \<^verbatim>\<open>extend\<close>.\<close>

definition ring_write ::
  "('a, 'z) ReplayBuffer_scheme \<Rightarrow> 'a + 'a list \<Rightarrow>
     (error + slots) \<times> ('a, 'z) ReplayBuffer_scheme" where
  "ring_write s data =
     (case data of
        Inl x \<Rightarrow>
          (case ReplayBuffer_add s x of
             (Inl e, s') \<Rightarrow> (Inl e, s')
           | (Inr i, s') \<Rightarrow> (Inr (IInt i), s'))
      | Inr xs \<Rightarrow>
          (case ReplayBuffer_extend s xs of
             (Inl e, s') \<Rightarrow> (Inl e, s')
           | (Inr is, s') \<Rightarrow> (Inr (IArr is), s')))"

definition add_or_extend ::
  "('a, 'z) PrioritizedReplayBuffer_scheme \<Rightarrow> 'a + 'a list \<Rightarrow> priority option \<Rightarrow>
     (error + slots) \<times> ('a, 'z) PrioritizedReplayBuffer_scheme" where
  "add_or_extend s data priority =
     (case stored_priority s priority of
        (Inl e, s1) \<Rightarrow> (Inl e, s1)
      | (Inr q, s1) \<Rightarrow>
          (case ring_write s1 data of
             (Inl e, s2) \<Rightarrow> (Inl e, s2)
           | (Inr ix, s2) \<Rightarrow>
               (case priority_shape_error q ix of
                  Some e \<Rightarrow> (Inl e, s2)
                | None \<Rightarrow>
                    (case write_trees s2 ix q of
                       Inl e \<Rightarrow> (Inl e, s2)
                     | Inr s3 \<Rightarrow> (Inr ix, s3)))))"

definition PrioritizedReplayBuffer_add ::
  "('a, 'z) PrioritizedReplayBuffer_scheme \<Rightarrow> 'a \<Rightarrow> priority option \<Rightarrow>
     (error + slots) \<times> ('a, 'z) PrioritizedReplayBuffer_scheme" where
  "PrioritizedReplayBuffer_add s data priority = add_or_extend s (Inl data) priority"

definition PrioritizedReplayBuffer_extend ::
  "('a, 'z) PrioritizedReplayBuffer_scheme \<Rightarrow> 'a list \<Rightarrow> priority option \<Rightarrow>
     (error + slots) \<times> ('a, 'z) PrioritizedReplayBuffer_scheme" where
  "PrioritizedReplayBuffer_extend s data priority = add_or_extend s (Inr data) priority"

text \<open>\<^verbatim>\<open>PrioritizedReplayBuffer.update_priority(index, priority)\<close>: the shape test, which
  turns an array of length 1 at an \<^verbatim>\<open>int\<close> index into its item, then the writes under
  the lock.\<close>

definition checked_priority :: "slots \<Rightarrow> priority \<Rightarrow> error + priority" where
  "checked_priority ix priority =
     (case ix of
        IInt i \<Rightarrow>
          (case priority of
             PFloat p \<Rightarrow> Inr priority
           | PArray ps \<Rightarrow> if length ps \<noteq> 1 then Inl RuntimeError else Inr (PFloat (hd ps)))
      | IArr is \<Rightarrow>
          (case priority of
             PFloat p \<Rightarrow> Inr priority
           | PArray ps \<Rightarrow>
               if length ps = 1 \<or> length is = length ps then Inr priority
               else Inl RuntimeError))"

definition update_priority ::
  "('a, 'z) PrioritizedReplayBuffer_scheme \<Rightarrow> slots \<Rightarrow> priority \<Rightarrow>
     (error + unit) \<times> ('a, 'z) PrioritizedReplayBuffer_scheme" where
  "update_priority s ix priority =
     (case checked_priority ix priority of
        Inl e \<Rightarrow> (Inl e, s)
      | Inr p \<Rightarrow>
          (case np_max p of
             None \<Rightarrow> (Inl ValueError, s)
           | Some mp \<Rightarrow>
               let s1 = s\<lparr>max_priority := max (max_priority s) mp\<rparr> in
               (case power_priority (eps s) (alpha s) p of
                  None \<Rightarrow> (Inl FloatDomain, s1)
                | Some q \<Rightarrow>
                    (case write_trees s1 ix q of
                       Inl e \<Rightarrow> (Inl e, s1)
                     | Inr s2 \<Rightarrow> (Inr (), s2)))))"

text \<open>\<^verbatim>\<open>TensorDictPrioritizedReplayBuffer.update_priority(tensordict)\<close>, on the two tensors
  it reads from the tensordict: the priorities under \<^verbatim>\<open>priority_key\<close> and the slots under
  \<^verbatim>\<open>"index"\<close>.\<close>

definition TensorDict_update_priority ::
  "('a, 'z) PrioritizedReplayBuffer_scheme \<Rightarrow> int list \<Rightarrow> real list \<Rightarrow>
     (error + unit) \<times> ('a, 'z) PrioritizedReplayBuffer_scheme" where
  "TensorDict_update_priority s index priority =
     (if list_ex (\<lambda>p. p < 0) priority then (Inl RuntimeError, s)
      else update_priority s (IArr index) (PArray priority))"

text \<open>
  The weights of a sample are IEEE doubles computed by \<^verbatim>\<open>weight / p_min\<close> and
  \<^verbatim>\<open>np.power(..., -self._beta)\<close>: the quotient can overflow to \<open>+\<infinity>\<close>, and both results are
  rounded. A double is a finite real, an infinity or a NaN. The division and the power
  of NumPy are arguments of the model of \<^verbatim>\<open>_sample\<close>; what is known of them is stated where
  it is used.
\<close>

datatype float64 = Fin real | PInf | NInf | NaN

definition float_of_min :: "minval \<Rightarrow> float64" where
  "float_of_min m = (case m of Finite x \<Rightarrow> Fin x | PosInf \<Rightarrow> PInf)"

text \<open>
  \<^verbatim>\<open>PrioritizedReplayBuffer._sample(batch_size)\<close>. The masses drawn by
  \<^verbatim>\<open>np.random.uniform(0.0, p_sum, size=batch_size)\<close> are an argument. The payloads are
  returned as the list that is handed to the collate function.
\<close>

definition nonpositive_mv :: "minval \<Rightarrow> bool" where
  "nonpositive_mv m = (case m of Finite x \<Rightarrow> x \<le> 0 | PosInf \<Rightarrow> False)"

definition PrioritizedReplayBuffer_sample ::
  "(float64 \<Rightarrow> float64 \<Rightarrow> float64) \<Rightarrow> (float64 \<Rightarrow> float64 \<Rightarrow> float64) \<Rightarrow>
     ('a, 'z) PrioritizedReplayBuffer_scheme \<Rightarrow> real list \<Rightarrow>
     error + ('a list \<times> float64 list \<times> int list)" where
  "PrioritizedReplayBuffer_sample fdiv fpow s mass =
     (let p_sum = sum_query (sum_tree s) 0 (capacity s);
          p_min = min_query (min_tree s) 0 (capacity s)
      in
      if p_sum \<le> 0 then Inl RuntimeError
      else if nonpositive_mv p_min then Inl RuntimeError
      else
        let index = map (\<lambda>m. min (int (scan_lower_bound (sum_tree s) m))
                                  (int (length (storage s)) - 1)) mass
        in
        (case those (map (py_getitem (storage s)) index) of
           None \<Rightarrow> Inl IndexError
         | Some data \<Rightarrow>
             (case those (map (tree_get (sum_tree s)) index) of
                None \<Rightarrow> Inl SegmentTreeIndex
              | Some weight \<Rightarrow>
                  Inr (data,
                       map (\<lambda>w. fpow (fdiv (Fin w) (float_of_min p_min)) (Fin (- beta s)))
                         weight,
                       index))))"

text \<open>
  What the weights need of the two float operations. IEEE division is correctly
  rounded, so a quotient of positive doubles \<open>x \<ge> y\<close> is at least 1 or overflows, and
  \<open>y / y\<close> is 1. The power function of C returns 1 at the base 1 and at the exponent 0,
  and 0 at the base \<open>+\<infinity>\<close> with a negative exponent; that it stays inside \<open>[0, 1]\<close> for a
  base of at least 1 and an exponent of at most 0 holds of an implementation whose
  error is below one unit in the last place.
\<close>

definition ieee_weight_ops ::
  "(float64 \<Rightarrow> float64 \<Rightarrow> float64) \<Rightarrow> (float64 \<Rightarrow> float64 \<Rightarrow> float64) \<Rightarrow> bool" where
  "ieee_weight_ops fdiv fpow \<longleftrightarrow>
     (\<forall>x y. 0 < y \<and> y \<le> x \<longrightarrow>
        fdiv (Fin x) (Fin y) = PInf \<or> (\<exists>q. fdiv (Fin x) (Fin y) = Fin q \<and> 1 \<le> q)) \<and>
     (\<forall>y. 0 < y \<longrightarrow> fdiv (Fin y) (Fin y) = Fin 1) \<and>
     (\<forall>q e. 1 \<le> q \<and> e \<le> 0 \<longrightarrow> (\<exists>w. fpow (Fin q) (Fin e) = Fin w \<and> 0 \<le> w \<and> w \<le> 1)) \<and>
     (\<forall>e. e \<le> 0 \<longrightarrow> (\<exists>w. fpow PInf (Fin e) = Fin w \<and> 0 \<le> w \<and> w \<le> 1)) \<and>
     (\<forall>e. fpow (Fin 1) (Fin e) = Fin 1) \<and>
     (\<forall>x. fpow x (Fin 0) = Fin 1)"

text \<open>
  An instance of the two operations: double arithmetic with its overflow at \<open>2\<^sup>1\<^sup>0\<^sup>2\<^sup>4\<close>
  and without its rounding. Its results are those of NumPy wherever the exact result
  is a double or overflows.
\<close>

definition double_divide :: "float64 \<Rightarrow> float64 \<Rightarrow> float64" where
  "double_divide a b =
     (case a of
        Fin x \<Rightarrow>
          (case b of
             Fin y \<Rightarrow>
               if y = 0 then (if x = 0 then NaN else if 0 < x then PInf else NInf)
               else if 2 ^ 1024 \<le> x / y then PInf
               else if x / y \<le> - (2 ^ 1024) then NInf
               else Fin (x / y)
           | PInf \<Rightarrow> Fin 0
           | NInf \<Rightarrow> Fin 0
           | NaN \<Rightarrow> NaN)
      | _ \<Rightarrow> NaN)"

definition double_power :: "float64 \<Rightarrow> float64 \<Rightarrow> float64" where
  "double_power a b =
     (if b = Fin 0 then Fin 1
      else
        case a of
          Fin x \<Rightarrow>
            (case b of
               Fin e \<Rightarrow>
                 if 0 < x then (if 2 ^ 1024 \<le> x powr e then PInf else Fin (x powr e))
                 else NaN
             | _ \<Rightarrow> NaN)
        | PInf \<Rightarrow> (case b of Fin e \<Rightarrow> if e < 0 then Fin 0 else PInf | _ \<Rightarrow> NaN)
        | _ \<Rightarrow> NaN)"

section \<open>Reference behaviour and state invariant\<close>

text \<open>The payloads of a batch handed to \<^verbatim>\<open>add\<close> one at a time, in order: what the spec
  compares \<^verbatim>\<open>extend\<close> with.\<close>

fun add_each ::
  "('a, 'z) ReplayBuffer_scheme \<Rightarrow> 'a list \<Rightarrow>
     (error + int list) \<times> ('a, 'z) ReplayBuffer_scheme" where
  "add_each s [] = (Inr [], s)"
| "add_each s (x # xs) =
     (case ReplayBuffer_add s x of
        (Inl e, s1) \<Rightarrow> (Inl e, s1)
      | (Inr i, s1) \<Rightarrow>
          (case add_each s1 xs of
             (Inl e, s2) \<Rightarrow> (Inl e, s2)
           | (Inr is, s2) \<Rightarrow> (Inr (i # is), s2)))"

text \<open>The ring occupancy of the spec after \<open>T\<close> payloads were written: the length is
  \<open>min T capacity\<close> and the cursor is \<open>T mod capacity\<close>.\<close>

definition ring_occupancy :: "('a, 'z) ReplayBuffer_scheme \<Rightarrow> nat \<Rightarrow> bool" where
  "ring_occupancy s T \<longleftrightarrow>
     0 < capacity s \<and>
     int (length (storage s)) = min (int T) (capacity s) \<and>
     cursor s = int T mod capacity s"

text \<open>
  An invariant of the prioritized buffer that sampling relies on: the trees have one leaf per
  slot of the capacity, the cursor lies inside the storage or at its end, and every
  occupied slot carries the same stored priority in both trees.
\<close>

definition slots_tracked :: "('a, 'z) PrioritizedReplayBuffer_scheme \<Rightarrow> bool" where
  "slots_tracked s \<longleftrightarrow>
     length (sum_tree s) = nat (capacity s) \<and>
     length (min_tree s) = nat (capacity s) \<and>
     0 \<le> cursor s \<and> cursor s \<le> int (length (storage s)) \<and>
     (\<forall>i < length (storage s).
        i < nat (capacity s) \<and> min_tree s ! i = Finite (sum_tree s ! i))"

text \<open>
  States that a program reaches from the constructor through calls of \<^verbatim>\<open>add\<close>, \<^verbatim>\<open>extend\<close>
  and \<^verbatim>\<open>update_priority\<close>: those calls that return and store finite priorities. A call
  whose stored priority is no finite real returns in the program as well and is not
  followed here, so the program reaches more states than these.
\<close>

inductive reachable :: "'a PrioritizedReplayBuffer \<Rightarrow> bool" where
  init: "PrioritizedReplayBuffer_init sz a b e = Inr s \<Longrightarrow> reachable s"
| add: "reachable s \<Longrightarrow> PrioritizedReplayBuffer_add s x p = (Inr ix, s') \<Longrightarrow> reachable s'"
| extend: "reachable s \<Longrightarrow> PrioritizedReplayBuffer_extend s xs p = (Inr ix, s') \<Longrightarrow> reachable s'"
| update: "reachable s \<Longrightarrow> update_priority s ix p = (Inr (), s') \<Longrightarrow> reachable s'"

text \<open>The buffer of the spec's third scenario, \<^verbatim>\<open>add(A, 1); add(B, 2); add(C, 3)\<close> at
  capacity 3 with \<open>\<alpha> = 1\<close> and \<open>\<epsilon> = 0\<close>, for a given \<open>\<beta>\<close>.\<close>

definition abc_buffer :: "real \<Rightarrow> char PrioritizedReplayBuffer" where
  "abc_buffer b =
     \<lparr>storage = ''ABC'', capacity = 3, cursor = 0, alpha = 1, beta = b, eps = 0,
      sum_tree = [1, 2, 3], min_tree = [Finite 1, Finite 2, Finite 3], max_priority = 3\<rparr>"

text \<open>A buffer of capacity 2 after \<^verbatim>\<open>add(A, 2**-600); add(B, 2**600)\<close> with \<open>\<alpha> = 1\<close>, \<open>\<beta> = 1\<close>
  and \<open>\<epsilon> = 0\<close>; both priorities are doubles.\<close>

definition wide_buffer :: "char PrioritizedReplayBuffer" where
  "wide_buffer =
     \<lparr>storage = ''AB'', capacity = 2, cursor = 0, alpha = 1, beta = 1, eps = 0,
      sum_tree = [1 / 2 ^ 600, 2 ^ 600],
      min_tree = [Finite (1 / 2 ^ 600), Finite (2 ^ 600)], max_priority = 2 ^ 600\<rparr>"

section \<open>Evaluation rules\<close>

lemmas ring_eval = ReplayBuffer_init_def ReplayBuffer_extend_def ReplayBuffer_add_def
  ReplayBuffer_len_def ReplayBuffer_getitem_def collate_and_pin_def py_setitem_def
  py_getitem_def upto.simps

lemmas prb_eval = PrioritizedReplayBuffer_init_def PrioritizedReplayBuffer_extend_def
  PrioritizedReplayBuffer_add_def add_or_extend_def stored_priority_def ring_write_def
  priority_shape_error_def write_trees_def leaf_writes_def index_list_def tree_set_def
  default_priority_def np_power_def update_priority_def checked_priority_def
  SumSegmentTree_def MinSegmentTree_def

section \<open>The storage ring\<close>

text \<open>
  Claim C5. A buffer of capacity 4 is empty after construction; \<^verbatim>\<open>extend\<close> with the five
  payloads A, B, C, D, E returns the slots 0, 1, 2, 3, 0 and leaves the storage
  E, B, C, D, the cursor 1 and the length 4.
\<close>

theorem extend_five_into_four:
  "ReplayBuffer_init 4 = Inr \<lparr>storage = [], capacity = 4, cursor = 0\<rparr> \<and>
   ReplayBuffer_extend \<lparr>storage = [], capacity = 4, cursor = 0\<rparr> ''ABCDE'' =
     (Inr [0, 1, 2, 3, 0], \<lparr>storage = ''EBCD'', capacity = 4, cursor = 1\<rparr>) \<and>
   ReplayBuffer_len \<lparr>storage = ''EBCD'', capacity = 4, cursor = 1\<rparr> = 4"
  by (simp add: ring_eval)

text \<open>
  Claim C2 (ring occupancy: after successful writes of \<open>T\<close> payloads the length is
  \<open>min T c\<close> and the cursor is \<open>T mod c\<close>, inside \<open>[0, c)\<close>). The code leaves the invariant
  when a batch wraps by exactly the capacity: the wrapping branches of \<^verbatim>\<open>extend\<close> store
  \<^verbatim>\<open>batch_size - d\<close> in the cursor without the reduction modulo the capacity that \<^verbatim>\<open>add\<close>
  and the other two branches apply. With capacity 4, two successful calls that write
  8 payloads leave the cursor at 4, and the ninth payload, added next, is appended as a
  fifth slot: the occupancy holds after the first call and is lost after the second.
\<close>

theorem extend_cursor_reaches_capacity:
  "ReplayBuffer_extend \<lparr>storage = [], capacity = 4, cursor = 0\<rparr> ''AB'' =
     (Inr [0, 1], \<lparr>storage = ''AB'', capacity = 4, cursor = 2\<rparr>) \<and>
   ReplayBuffer_extend \<lparr>storage = ''AB'', capacity = 4, cursor = 2\<rparr> ''CDEFGH'' =
     (Inr [2, 3, 0, 1, 2, 3], \<lparr>storage = ''EFGH'', capacity = 4, cursor = 4\<rparr>) \<and>
   ReplayBuffer_add \<lparr>storage = ''EFGH'', capacity = 4, cursor = 4\<rparr> (CHR ''I'') =
     (Inr 4, \<lparr>storage = ''EFGHI'', capacity = 4, cursor = 1\<rparr>) \<and>
   ring_occupancy \<lparr>storage = ''AB'', capacity = 4, cursor = 2\<rparr> 2 \<and>
   \<not> ring_occupancy \<lparr>storage = ''EFGH'', capacity = 4, cursor = 4\<rparr> 8 \<and>
   \<not> ring_occupancy \<lparr>storage = ''EFGHI'', capacity = 4, cursor = 1\<rparr> 9"
  by (simp add: ring_eval ring_occupancy_def)

text \<open>
  Claim C3 (a batch larger than the capacity either fails or leaves the ring as the
  same payloads added one at a time would). With capacity 4 and an empty buffer,
  \<^verbatim>\<open>extend\<close> accepts a batch of 8 payloads and leaves the cursor at 4, where eight calls of
  \<^verbatim>\<open>add\<close> leave it at 0; the storages agree.
\<close>

theorem extend_eight_differs_from_adds:
  "ReplayBuffer_extend \<lparr>storage = [], capacity = 4, cursor = 0\<rparr> ''ABCDEFGH'' =
     (Inr [0, 1, 2, 3, 0, 1, 2, 3], \<lparr>storage = ''EFGH'', capacity = 4, cursor = 4\<rparr>) \<and>
   add_each \<lparr>storage = [], capacity = 4, cursor = 0\<rparr> ''ABCDEFGH'' =
     (Inr [0, 1, 2, 3, 0, 1, 2, 3], \<lparr>storage = ''EFGH'', capacity = 4, cursor = 0\<rparr>)"
  by (simp add: ring_eval)

text \<open>
  Claim C6 (constructing a buffer with capacity \<open>\<le> 0\<close> fails). Neither constructor
  looks at the capacity: \<^verbatim>\<open>ReplayBuffer(0)\<close> and \<^verbatim>\<open>ReplayBuffer(-3)\<close> return a buffer.
\<close>

theorem init_accepts_capacity_zero:
  "ReplayBuffer_init 0 = Inr \<lparr>storage = ([] :: char list), capacity = 0, cursor = 0\<rparr> \<and>
   ReplayBuffer_init (- 3) = Inr \<lparr>storage = ([] :: char list), capacity = - 3, cursor = 0\<rparr>"
  by (simp add: ring_eval)

text \<open>
  Claim C6, amended. The constructor of \<^verbatim>\<open>ReplayBuffer\<close> returns an empty ring with the
  cursor at 0 for every integer capacity, and the constructor of
  \<^verbatim>\<open>PrioritizedReplayBuffer\<close> fails exactly for \<open>alpha \<le> 0\<close> or \<open>beta < 0\<close>, whatever the
  capacity is.
\<close>

theorem init_ignores_capacity:
  "ReplayBuffer_init sz = Inr \<lparr>storage = [], capacity = sz, cursor = 0\<rparr> \<and>
   PrioritizedReplayBuffer_init sz a b e =
     (if a \<le> 0 \<or> b < 0 then Inl ValueError
      else Inr \<lparr>storage = [], capacity = sz, cursor = 0, alpha = a, beta = b, eps = e,
                sum_tree = SumSegmentTree sz, min_tree = MinSegmentTree sz,
                max_priority = 1\<rparr>)"
  by (simp add: ReplayBuffer_init_def PrioritizedReplayBuffer_init_def)




subsection \<open>What the ring operations leave alone\<close>

lemma store_loop_length: "store_loop st k vs = (ok, st') \<Longrightarrow> length st' = length st"
  by (induction st k vs rule: store_loop.induct)
     (auto simp: py_setitem_def Let_def split: option.splits if_splits)

lemma ReplayBuffer_add_frame:
  "ReplayBuffer_add s x = (r, s') \<Longrightarrow> s' = s\<lparr>storage := storage s', cursor := cursor s'\<rparr>"
  by (auto simp: ReplayBuffer_add_def Let_def split: option.splits if_splits)

lemma ReplayBuffer_extend_frame:
  "ReplayBuffer_extend s xs = (r, s') \<Longrightarrow> s' = s\<lparr>storage := storage s', cursor := cursor s'\<rparr>"
  by (auto simp: ReplayBuffer_extend_def Let_def split: prod.splits if_splits)

lemma ring_write_frame:
  "ring_write s data = (r, s') \<Longrightarrow> s' = s\<lparr>storage := storage s', cursor := cursor s'\<rparr>"
  by (auto simp: ring_write_def split: sum.splits prod.splits
           dest: ReplayBuffer_add_frame ReplayBuffer_extend_frame)

subsection \<open>Ring occupancy for batches within the capacity\<close>

text \<open>
  On a buffer of positive capacity the occupancy is kept by \<^verbatim>\<open>add\<close> and by every
  \<^verbatim>\<open>extend\<close> with at most \<open>capacity\<close> payloads, and both calls return. A batch that
  loses the occupancy is larger than the capacity.
\<close>

lemma store_loop_runs:
  "0 \<le> k \<Longrightarrow> k + int (length vs) \<le> int (length st) \<Longrightarrow>
     \<exists>st'. store_loop st k vs = (True, st')"
proof (induction st k vs rule: store_loop.induct)
  case (1 st k)
  then show ?case by simp
next
  case (2 st k v vs)
  then have w: "py_setitem st k v = Some (st[nat k := v])"
    by (simp add: py_setitem_def)
  have "\<exists>st'. store_loop (st[nat k := v]) (k + 1) vs = (True, st')"
    using "2.IH"[OF w] "2.prems" by simp
  with w show ?case by simp
qed

lemma init_occupancy:
  "0 < sz \<Longrightarrow> ReplayBuffer_init sz = Inr s \<Longrightarrow> ring_occupancy s 0"
  by (auto simp: ReplayBuffer_init_def ring_occupancy_def)

lemma add_occupancy:
  assumes "ring_occupancy s T"
  shows "\<exists>s'. ReplayBuffer_add s x = (Inr (cursor s), s') \<and> ring_occupancy s' (Suc T)"
proof -
  let ?c = "capacity s"
  from assms have cap: "0 < ?c" and len: "int (length (storage s)) = min (int T) ?c"
    and cur: "cursor s = int T mod ?c"
    by (simp_all add: ring_occupancy_def)
  have next_cur: "(cursor s + 1) mod ?c = int (Suc T) mod ?c"
    by (simp add: cur mod_simps add.commute)
  show ?thesis
  proof (cases "int T < ?c")
    case True
    then have "cursor s = int T" using cur by simp
    with True len cap next_cur show ?thesis
      by (simp add: ReplayBuffer_add_def ring_occupancy_def)
  next
    case False
    then have full: "int (length (storage s)) = ?c" using len by simp
    have "0 \<le> cursor s" "cursor s < ?c" using cap cur by simp_all
    with False full cap next_cur show ?thesis
      by (simp add: ReplayBuffer_add_def py_setitem_def ring_occupancy_def)
  qed
qed

lemma extend_occupancy:
  assumes occ: "ring_occupancy s T" and ne: "xs \<noteq> []"
    and small: "int (length xs) \<le> capacity s"
  shows "\<exists>ix s'. ReplayBuffer_extend s xs = (Inr ix, s') \<and>
           ring_occupancy s' (T + length xs)"
proof -
  let ?c = "capacity s" and ?n = "int (length (storage s))" and ?b = "int (length xs)"
  from occ have cap: "0 < ?c" and len: "?n = min (int T) ?c" and cur: "cursor s = int T mod ?c"
    by (simp_all add: ring_occupancy_def)
  from ne have b: "0 < ?b" "length xs \<noteq> 0" by simp_all
  have c0: "0 \<le> cursor s" and c1: "cursor s < ?c" using cap cur by simp_all
  have next_cur: "(cursor s + ?b) mod ?c = int (T + length xs) mod ?c"
    by (simp add: cur mod_simps)
  consider (fits) "?n + ?b \<le> ?c"
    | (fill) "\<not> ?n + ?b \<le> ?c" "?n < ?c"
    | (full) "\<not> ?n + ?b \<le> ?c" "\<not> ?n < ?c" "cursor s + ?b \<le> ?c"
    | (wrap) "\<not> ?n + ?b \<le> ?c" "\<not> ?n < ?c" "\<not> cursor s + ?b \<le> ?c"
    by blast
  then show ?thesis
  proof cases
    case fits
    then have "int T < ?c" using len b by linarith
    with fits len b next_cur cap show ?thesis
      by (simp add: ReplayBuffer_extend_def Let_def ring_occupancy_def)
  next
    case fill
    let ?d = "?c - ?n"
    have T: "int T = ?n" using fill len by simp
    have "0 + int (length (drop (nat ?d) xs)) \<le> int (length (storage s @ take (nat ?d) xs))"
      using fill small by simp
    from store_loop_runs[OF _ this] obtain st where
      loop: "store_loop (storage s @ take (nat ?d) xs) 0 (drop (nat ?d) xs) = (True, st)"
      by auto
    have lst: "int (length st) = ?c"
      using store_loop_length[OF loop] fill by simp
    have "int (T + length xs) mod ?c = ?b - ?d"
    proof -
      have "int (T + length xs) mod ?c = ((?b - ?d) + ?c) mod ?c"
        using T by (simp add: add.commute)
      also have "\<dots> = (?b - ?d) mod ?c" by (rule mod_add_self2)
      also have "\<dots> = ?b - ?d" using fill small by simp
      finally show ?thesis .
    qed
    with fill b loop lst cap T show ?thesis
      by (simp add: ReplayBuffer_extend_def Let_def ring_occupancy_def)
  next
    case full
    then have n: "?n = ?c" and T: "?c \<le> int T" using len by simp_all
    have "cursor s + int (length xs) \<le> int (length (storage s))"
      using full n by simp
    from store_loop_runs[OF c0 this] obtain st where
      loop: "store_loop (storage s) (cursor s) xs = (True, st)" by auto
    have lst: "int (length st) = ?c"
      using store_loop_length[OF loop] n by simp
    from full b loop lst cap T next_cur show ?thesis
      by (simp add: ReplayBuffer_extend_def Let_def ring_occupancy_def)
  next
    case wrap
    let ?d = "?c - cursor s"
    from wrap have n: "?n = ?c" and T: "?c \<le> int T" using len by simp_all
    have d: "0 < ?d" "?d < ?b" using c1 wrap by simp_all
    have "cursor s + int (length (take (nat ?d) xs)) \<le> int (length (storage s))"
      using d n by simp
    from store_loop_runs[OF c0 this] obtain st1 where
      loop1: "store_loop (storage s) (cursor s) (take (nat ?d) xs) = (True, st1)" by auto
    have l1: "int (length st1) = ?c"
      using store_loop_length[OF loop1] n by simp
    have "0 + int (length (drop (nat ?d) xs)) \<le> int (length st1)"
      using l1 d small by simp
    from store_loop_runs[OF _ this] obtain st2 where
      loop2: "store_loop st1 0 (drop (nat ?d) xs) = (True, st2)" by auto
    have l2: "int (length st2) = ?c"
      using store_loop_length[OF loop2] l1 by simp
    have "int (T + length xs) mod ?c = ?b - ?d"
    proof -
      have "int (T + length xs) mod ?c = (cursor s + ?b) mod ?c" by (simp add: next_cur)
      also have "cursor s + ?b = (?b - ?d) + ?c" by simp
      also have "((?b - ?d) + ?c) mod ?c = (?b - ?d) mod ?c" by (rule mod_add_self2)
      also have "\<dots> = ?b - ?d" using d small c1 by simp
      finally show ?thesis .
    qed
    with wrap b d loop1 loop2 l2 cap T show ?thesis
      by (simp add: ReplayBuffer_extend_def Let_def ring_occupancy_def)
  qed
qed

section \<open>Writes to the segment trees\<close>

lemma tree_set_many_length: "tree_set_many t ps = Some t' \<Longrightarrow> length t' = length t"
  by (induction t ps rule: tree_set_many.induct)
     (auto simp: tree_set_def split: option.splits if_splits)

lemma tree_set_many_valid:
  "tree_set_many t ps = Some t' \<Longrightarrow> (i, v) \<in> set ps \<Longrightarrow> 0 \<le> i \<and> i < int (length t)"
  by (induction t ps rule: tree_set_many.induct)
     (auto simp: tree_set_def split: option.splits if_splits)

lemma tree_set_many_nth:
  "tree_set_many t ps = Some t' \<Longrightarrow> j < length t \<Longrightarrow>
     t' ! j = (case map_of (rev ps) (int j) of Some v \<Rightarrow> v | None \<Rightarrow> t ! j)"
proof (induction t ps rule: tree_set_many.induct)
  case (1 t)
  then show ?case by simp
next
  case (2 t i v ps)
  from "2.prems" obtain t1 where t1: "tree_set t i v = Some t1" and rest: "tree_set_many t1 ps = Some t'"
    by (auto split: option.splits)
  from t1 have len: "length t1 = length t" and i: "0 \<le> i" "i < int (length t)" and t1_def: "t1 = t[nat i := v]"
    by (auto simp: tree_set_def split: if_splits)
  have "t' ! j = (case map_of (rev ps) (int j) of Some v \<Rightarrow> v | None \<Rightarrow> t1 ! j)"
    using "2.IH"[OF t1 rest] "2.prems"(2) len by simp
  moreover have "t1 ! j = (if int j = i then v else t ! j)"
    using i "2.prems"(2) by (auto simp: t1_def nth_list_update)
  ultimately show ?case
    by (auto simp: map_add_def split: option.splits)
qed

lemma tree_set_many_defined:
  "(\<And>i v. (i, v) \<in> set ps \<Longrightarrow> 0 \<le> i \<and> i < int (length t)) \<Longrightarrow> \<exists>t'. tree_set_many t ps = Some t'"
proof (induction t ps rule: tree_set_many.induct)
  case (1 t)
  then show ?case by simp
next
  case (2 t i v ps)
  have i: "0 \<le> i \<and> i < int (length t)" using "2.prems"[of i v] by simp
  then have t1: "tree_set t i v = Some (t[nat i := v])" by (simp add: tree_set_def)
  have "\<exists>t'. tree_set_many (t[nat i := v]) ps = Some t'"
  proof (rule "2.IH"[OF t1])
    fix i' v' assume "(i', v') \<in> set ps"
    then show "0 \<le> i' \<and> i' < int (length (t[nat i := v]))"
      using "2.prems"[of i' v'] by simp
  qed
  with t1 show ?case by simp
qed

lemma tree_set_many_again:
  assumes "tree_set_many t ps = Some t'"
  shows "tree_set_many t' ps = Some t'"
proof -
  have len: "length t' = length t" using assms by (rule tree_set_many_length)
  have "\<And>i v. (i, v) \<in> set ps \<Longrightarrow> 0 \<le> i \<and> i < int (length t')"
    using tree_set_many_valid[OF assms] len by simp
  then obtain t'' where t'': "tree_set_many t' ps = Some t''"
    using tree_set_many_defined by blast
  have "length t'' = length t'" using t'' by (rule tree_set_many_length)
  moreover have "t'' ! j = t' ! j" if "j < length t'" for j
    using tree_set_many_nth[OF t'' that] tree_set_many_nth[OF assms, of j] that len
    by (auto split: option.splits)
  ultimately have "t'' = t'" by (simp add: list_eq_iff_nth_eq)
  with t'' show ?thesis by simp
qed

section \<open>Priority updates\<close>

text \<open>
  Claim C9. Priority update is idempotent: \<^verbatim>\<open>update_priority(i, p)\<close> called a second time
  with the same arguments returns as the first call did and leaves the whole state,
  with the sum tree, the min tree and \<^verbatim>\<open>max_priority\<close>, as the first call left it. This
  holds for every state, index and priority, so in particular for a valid index and a
  non-negative priority.
\<close>

theorem update_priority_idempotent:
  "update_priority (snd (update_priority s ix priority)) ix priority =
     update_priority s ix priority"
proof (cases "checked_priority ix priority")
  case (Inl e)
  then show ?thesis by (simp add: update_priority_def)
next
  case (Inr p)
  show ?thesis
  proof (cases "np_max p")
    case None
    with Inr show ?thesis by (simp add: update_priority_def)
  next
    case (Some mp)
    define s1 where "s1 = s\<lparr>max_priority := max (max_priority s) mp\<rparr>"
    have s1_again: "s1\<lparr>max_priority := max (max_priority s1) mp\<rparr> = s1"
      by (simp add: s1_def)
    show ?thesis
    proof (cases "power_priority (eps s) (alpha s) p")
      case None
      with Inr Some show ?thesis
        by (simp add: update_priority_def)
    next
      case q: (Some q)
      show ?thesis
      proof (cases "write_trees s1 ix q")
        case (Inl e)
        with Inr Some q show ?thesis
          by (simp add: update_priority_def s1_def)
      next
        case s2: (Inr s2)
        then obtain st mt where st: "tree_set_many (sum_tree s1) (leaf_writes ix q) = Some st"
          and mt: "tree_set_many (min_tree s1) (map (\<lambda>(i, v). (i, Finite v)) (leaf_writes ix q)) = Some mt"
          and s2_def: "s2 = s1\<lparr>sum_tree := st, min_tree := mt\<rparr>"
          by (auto simp: write_trees_def split: option.splits)
        have "write_trees s2 ix q = Inr s2"
          using tree_set_many_again[OF st] tree_set_many_again[OF mt]
          by (simp add: write_trees_def s2_def)
        moreover have "s2\<lparr>max_priority := max (max_priority s2) mp\<rparr> = s2"
          by (simp add: s2_def s1_def)
        moreover have "eps s2 = eps s" "alpha s2 = alpha s"
          by (simp_all add: s2_def s1_def)
        ultimately show ?thesis
          using Inr Some q s2 by (simp add: update_priority_def s1_def)
      qed
    qed
  qed
qed

text \<open>At a leaf of the trees and a priority with \<open>p + eps > 0\<close> the call returns, with
  the state written out here.\<close>

lemma update_priority_returns:
  assumes "0 \<le> i" and "i < int (length (sum_tree s))"
    and "length (min_tree s) = length (sum_tree s)" and "0 < p + eps s"
  shows "update_priority s (IInt i) (PFloat p) =
           (Inr (), s\<lparr>max_priority := max (max_priority s) p,
                       sum_tree := (sum_tree s)[nat i := (p + eps s) powr alpha s],
                       min_tree := (min_tree s)[nat i := Finite ((p + eps s) powr alpha s)]\<rparr>)"
  using assms
  by (simp add: update_priority_def checked_priority_def np_power_def write_trees_def
      leaf_writes_def index_list_def tree_set_def)


text \<open>
  Claim C7 (\<^verbatim>\<open>update_priority\<close> with a negative priority fails, before the trees are
  written). \<^verbatim>\<open>PrioritizedReplayBuffer.update_priority\<close> has no test of the sign: at the
  priority \<open>-1\<close> it returns normally and writes \<open>(-1 + eps)\<^sup>\<alpha>\<close>, here \<open>-1\<close>, to both
  trees. The test exists in the override of \<^verbatim>\<open>TensorDictPrioritizedReplayBuffer\<close> only.
\<close>

theorem update_priority_accepts_negative:
  "update_priority
     \<lparr>storage = ''A'', capacity = 4, cursor = 1, alpha = 1, beta = 1, eps = 0,
      sum_tree = [1, 0, 0, 0], min_tree = [Finite 1, PosInf, PosInf, PosInf],
      max_priority = 1\<rparr> (IInt 0) (PFloat (- 1)) =
     (Inr (),
      \<lparr>storage = ''A'', capacity = 4, cursor = 1, alpha = 1, beta = 1, eps = 0,
       sum_tree = [- 1, 0, 0, 0], min_tree = [Finite (- 1), PosInf, PosInf, PosInf],
       max_priority = 1\<rparr>)"
  by (simp add: prb_eval)

lemma TensorDict_update_priority_rejects_negative:
  "p \<in> set priority \<Longrightarrow> p < 0 \<Longrightarrow>
     TensorDict_update_priority s index priority = (Inl RuntimeError, s)"
  by (auto simp: TensorDict_update_priority_def list_ex_iff)

section \<open>Adding with priorities\<close>

text \<open>
  Claim C1 (a failing \<^verbatim>\<open>add\<close> or \<^verbatim>\<open>extend\<close> leaves the ring, the trees and
  \<^verbatim>\<open>max_priority\<close> as they were). \<^verbatim>\<open>_add_or_extend\<close> raises \<^verbatim>\<open>_max_priority\<close> and writes the
  ring before it tests the length of the priority. On a fresh buffer of capacity 4,
  \<^verbatim>\<open>extend\<close> with three payloads and two priorities fails with RuntimeError and leaves
  the three payloads stored, the cursor at 3 and \<^verbatim>\<open>max_priority\<close> at 2; \<^verbatim>\<open>extend\<close> with an
  empty batch and the priority 5 fails and leaves \<^verbatim>\<open>max_priority\<close> at 5.
\<close>

theorem extend_failure_keeps_writes:
  "PrioritizedReplayBuffer_init 4 1 1 0 =
     Inr \<lparr>storage = ([] :: char list), capacity = 4, cursor = 0, alpha = 1, beta = 1, eps = 0,
          sum_tree = [0, 0, 0, 0], min_tree = [PosInf, PosInf, PosInf, PosInf],
          max_priority = 1\<rparr> \<and>
   PrioritizedReplayBuffer_extend
     \<lparr>storage = [], capacity = 4, cursor = 0, alpha = 1, beta = 1, eps = 0,
      sum_tree = [0, 0, 0, 0], min_tree = [PosInf, PosInf, PosInf, PosInf],
      max_priority = 1\<rparr> ''ABC'' (Some (PArray [1, 2])) =
     (Inl RuntimeError,
      \<lparr>storage = ''ABC'', capacity = 4, cursor = 3, alpha = 1, beta = 1, eps = 0,
       sum_tree = [0, 0, 0, 0], min_tree = [PosInf, PosInf, PosInf, PosInf],
       max_priority = 2\<rparr>) \<and>
   PrioritizedReplayBuffer_extend
     \<lparr>storage = ([] :: char list), capacity = 4, cursor = 0, alpha = 1, beta = 1, eps = 0,
      sum_tree = [0, 0, 0, 0], min_tree = [PosInf, PosInf, PosInf, PosInf],
      max_priority = 1\<rparr> [] (Some (PArray [5])) =
     (Inl PyException,
      \<lparr>storage = [], capacity = 4, cursor = 0, alpha = 1, beta = 1, eps = 0,
       sum_tree = [0, 0, 0, 0], min_tree = [PosInf, PosInf, PosInf, PosInf],
       max_priority = 5\<rparr>)"
  by (simp add: prb_eval ring_eval numeral_eq_Suc)

lemma map_of_broadcast:
  "i \<in> set is \<Longrightarrow> map_of (rev (map (\<lambda>i. (i, v)) is)) i = Some v"
  by (simp add: rev_map map_of_map_restrict)

lemma write_trees_float:
  assumes "write_trees s ix (PFloat v) = Inr s'" and "i \<in> set (index_list ix)"
  shows "tree_get (sum_tree s') i = Some v \<and> tree_get (min_tree s') i = Some (Finite v)"
proof -
  let ?ps = "map (\<lambda>i. (i, v)) (index_list ix)"
  let ?qs = "map (\<lambda>i. (i, Finite v)) (index_list ix)"
  from assms(1) obtain st mt where st: "tree_set_many (sum_tree s) ?ps = Some st"
    and mt: "tree_set_many (min_tree s) ?qs = Some mt"
    and s': "s' = s\<lparr>sum_tree := st, min_tree := mt\<rparr>"
    by (auto simp: write_trees_def leaf_writes_def comp_def split: option.splits)
  have i_st: "0 \<le> i \<and> i < int (length (sum_tree s))"
    using tree_set_many_valid[OF st, of i v] assms(2) by auto
  have i_mt: "0 \<le> i \<and> i < int (length (min_tree s))"
    using tree_set_many_valid[OF mt, of i "Finite v"] assms(2) by auto
  have n_st: "nat i < length (sum_tree s)" and n_mt: "nat i < length (min_tree s)"
    using i_st i_mt by linarith+
  have "st ! nat i = v"
    using tree_set_many_nth[OF st n_st] i_st map_of_broadcast[OF assms(2), of v] by simp
  moreover have "mt ! nat i = Finite v"
    using tree_set_many_nth[OF mt n_mt] i_mt map_of_broadcast[OF assms(2), of "Finite v"]
    by simp
  ultimately show ?thesis
    using i_st i_mt tree_set_many_length[OF st] tree_set_many_length[OF mt]
    by (simp add: tree_get_def s')
qed

lemma add_or_extend_default:
  assumes run: "add_or_extend s data None = (Inr ix, s')" and one: "max_priority s = 1"
  shows "\<exists>\<rho>. np_power (1 + eps s) (alpha s) = Some \<rho> \<and>
           (\<forall>i\<in>set (index_list ix).
              tree_get (sum_tree s') i = Some \<rho> \<and> tree_get (min_tree s') i = Some (Finite \<rho>)) \<and>
           max_priority s' = 1 \<and> eps s' = eps s \<and> alpha s' = alpha s"
proof -
  from run obtain \<rho> where rho: "default_priority s = Some \<rho>"
    by (auto simp: add_or_extend_def stored_priority_def split: option.splits)
  with run obtain s2 where ring: "ring_write s data = (Inr ix, s2)"
    and trees: "write_trees s2 ix (PFloat \<rho>) = Inr s'"
    by (auto simp: add_or_extend_def stored_priority_def
             split: option.splits sum.splits prod.splits)
  have s2: "s2 = s\<lparr>storage := storage s2, cursor := cursor s2\<rparr>"
    using ring by (rule ring_write_frame)
  have keep2: "max_priority s2 = max_priority s" "eps s2 = eps s" "alpha s2 = alpha s"
    by (subst s2, simp)+
  from trees obtain st mt where "s' = s2\<lparr>sum_tree := st, min_tree := mt\<rparr>"
    by (auto simp: write_trees_def split: option.splits)
  then have keep3: "max_priority s' = max_priority s2" "eps s' = eps s2" "alpha s' = alpha s2"
    by simp_all
  have "np_power (1 + eps s) (alpha s) = Some \<rho>"
    using rho one by (simp add: default_priority_def)
  moreover have "\<forall>i\<in>set (index_list ix).
      tree_get (sum_tree s') i = Some \<rho> \<and> tree_get (min_tree s') i = Some (Finite \<rho>)"
    using write_trees_float[OF trees] by blast
  ultimately show ?thesis
    using keep2 keep3 one by simp
qed

text \<open>
  Claim C10. A freshly constructed prioritized buffer has \<^verbatim>\<open>max_priority\<close> 1. In every
  state with \<^verbatim>\<open>max_priority\<close> 1, an \<^verbatim>\<open>add\<close> or \<^verbatim>\<open>extend\<close> without a priority that returns
  has written the stored priority \<open>(1 + eps)\<^sup>\<alpha>\<close> (for \<open>1 + eps > 0\<close> the real power) to
  both trees at every slot it returns, and has left \<^verbatim>\<open>max_priority\<close> at 1, so the same
  holds for the next such call.
\<close>

theorem omitted_priority_stores_initial_default:
  "(PrioritizedReplayBuffer_init sz a b e = Inr s0 \<longrightarrow>
      max_priority s0 = 1 \<and> alpha s0 = a \<and> eps s0 = e) \<and>
   (max_priority s = 1 \<and>
    (PrioritizedReplayBuffer_add s x None = (Inr ix, s') \<or>
     PrioritizedReplayBuffer_extend s xs None = (Inr ix, s')) \<longrightarrow>
      (\<exists>\<rho>. np_power (1 + eps s) (alpha s) = Some \<rho> \<and>
           (0 < 1 + eps s \<longrightarrow> \<rho> = (1 + eps s) powr alpha s) \<and>
           (\<forall>i\<in>set (index_list ix).
              tree_get (sum_tree s') i = Some \<rho> \<and>
              tree_get (min_tree s') i = Some (Finite \<rho>))) \<and>
      max_priority s' = 1 \<and> eps s' = eps s \<and> alpha s' = alpha s)"
proof (intro conjI impI)
  assume "PrioritizedReplayBuffer_init sz a b e = Inr s0"
  then have "s0 = \<lparr>storage = [], capacity = sz, cursor = 0, alpha = a, beta = b, eps = e,
              sum_tree = SumSegmentTree sz, min_tree = MinSegmentTree sz, max_priority = 1\<rparr>"
    by (auto simp: PrioritizedReplayBuffer_init_def split: if_splits)
  then show "max_priority s0 = 1" "alpha s0 = a" "eps s0 = e" by simp_all
next
  assume h: "max_priority s = 1 \<and>
    (PrioritizedReplayBuffer_add s x None = (Inr ix, s') \<or>
     PrioritizedReplayBuffer_extend s xs None = (Inr ix, s'))"
  then obtain data where run: "add_or_extend s data None = (Inr ix, s')"
    by (auto simp: PrioritizedReplayBuffer_add_def PrioritizedReplayBuffer_extend_def)
  from add_or_extend_default[OF run] h obtain \<rho> where
    rho: "np_power (1 + eps s) (alpha s) = Some \<rho>"
    and leaves: "\<forall>i\<in>set (index_list ix).
      tree_get (sum_tree s') i = Some \<rho> \<and> tree_get (min_tree s') i = Some (Finite \<rho>)"
    and keep: "max_priority s' = 1" "eps s' = eps s" "alpha s' = alpha s"
    by blast
  have "0 < 1 + eps s \<longrightarrow> \<rho> = (1 + eps s) powr alpha s"
    using rho by (auto simp: np_power_def)
  with rho leaves
  show "\<exists>\<rho>. np_power (1 + eps s) (alpha s) = Some \<rho> \<and>
           (0 < 1 + eps s \<longrightarrow> \<rho> = (1 + eps s) powr alpha s) \<and>
           (\<forall>i\<in>set (index_list ix).
              tree_get (sum_tree s') i = Some \<rho> \<and>
              tree_get (min_tree s') i = Some (Finite \<rho>))"
    by blast
  show "max_priority s' = 1" "eps s' = eps s" "alpha s' = alpha s" by (fact keep)+
qed


theorem omitted_priority_stores_initial_default_witness:
  "PrioritizedReplayBuffer_init 4 2 1 1 =
     Inr \<lparr>storage = ([] :: char list), capacity = 4, cursor = 0, alpha = 2, beta = 1, eps = 1,
          sum_tree = [0, 0, 0, 0], min_tree = [PosInf, PosInf, PosInf, PosInf],
          max_priority = 1\<rparr> \<and>
   PrioritizedReplayBuffer_add
     \<lparr>storage = [], capacity = 4, cursor = 0, alpha = 2, beta = 1, eps = 1,
      sum_tree = [0, 0, 0, 0], min_tree = [PosInf, PosInf, PosInf, PosInf],
      max_priority = 1\<rparr> (CHR ''A'') None =
     (Inr (IInt 0),
      \<lparr>storage = ''A'', capacity = 4, cursor = 1, alpha = 2, beta = 1, eps = 1,
       sum_tree = [4, 0, 0, 0], min_tree = [Finite 4, PosInf, PosInf, PosInf],
       max_priority = 1\<rparr>) \<and>
   PrioritizedReplayBuffer_extend
     \<lparr>storage = ''A'', capacity = 4, cursor = 1, alpha = 2, beta = 1, eps = 1,
      sum_tree = [4, 0, 0, 0], min_tree = [Finite 4, PosInf, PosInf, PosInf],
      max_priority = 1\<rparr> ''BC'' None =
     (Inr (IArr [1, 2]),
      \<lparr>storage = ''ABC'', capacity = 4, cursor = 3, alpha = 2, beta = 1, eps = 1,
       sum_tree = [4, 4, 4, 0], min_tree = [Finite 4, Finite 4, Finite 4, PosInf],
       max_priority = 1\<rparr>) \<and>
   np_power (1 + 1) 2 = Some 4 \<and>
   tree_get [4, 4, 4, 0 :: real] 2 = Some 4 \<and>
   tree_get [Finite 4, Finite 4, Finite 4, PosInf] 2 = Some (Finite 4)"
  using omitted_priority_stores_initial_default
    [of 4 2 1 1
        "\<lparr>storage = ([] :: char list), capacity = 4, cursor = 0, alpha = 2, beta = 1, eps = 1,
          sum_tree = [0, 0, 0, 0], min_tree = [PosInf, PosInf, PosInf, PosInf],
          max_priority = 1\<rparr>"
        "\<lparr>storage = ''A'', capacity = 4, cursor = 1, alpha = 2, beta = 1, eps = 1,
          sum_tree = [4, 0, 0, 0], min_tree = [Finite 4, PosInf, PosInf, PosInf],
          max_priority = 1\<rparr>"
        "CHR ''A''" "IArr [1, 2]"
        "\<lparr>storage = ''ABC'', capacity = 4, cursor = 3, alpha = 2, beta = 1, eps = 1,
          sum_tree = [4, 4, 4, 0], min_tree = [Finite 4, Finite 4, Finite 4, PosInf],
          max_priority = 1\<rparr>"
        "''BC''"]
  by (simp add: prb_eval ring_eval tree_get_def numeral_eq_Suc)

section \<open>Sampling\<close>

subsection \<open>Slots written by the ring operations\<close>

lemma store_loop_fits:
  "store_loop st k vs = (True, st') \<Longrightarrow> 0 \<le> k \<Longrightarrow> vs \<noteq> [] \<Longrightarrow>
     k + int (length vs) \<le> int (length st)"
proof (induction st k vs rule: store_loop.induct)
  case (1 st k)
  then show ?case by simp
next
  case (2 st k v vs)
  from "2.prems" obtain st1 where w: "py_setitem st k v = Some st1"
    and rest: "store_loop st1 (k + 1) vs = (True, st')"
    by (auto split: option.splits)
  from w "2.prems"(2) have k: "k < int (length st)" and len: "length st1 = length st"
    by (auto simp: py_setitem_def Let_def split: if_splits)
  show ?case
  proof (cases vs)
    case Nil
    with k show ?thesis by simp
  next
    case (Cons a as)
    with "2.IH"[OF w rest] "2.prems"(2) len show ?thesis by simp
  qed
qed

lemma ReplayBuffer_add_slots:
  assumes "ReplayBuffer_add s x = (Inr i, s')"
    and "0 < capacity s" and "0 \<le> cursor s" and "cursor s \<le> int (length (storage s))"
  shows "i = cursor s"
    and "0 \<le> cursor s' \<and> cursor s' \<le> int (length (storage s'))"
    and "\<forall>j. length (storage s) \<le> j \<and> j < length (storage s') \<longrightarrow> int j = i"
    and "length (storage s) \<le> length (storage s')"
proof -
  have m: "(cursor s + 1) mod capacity s \<le> cursor s + 1" "0 \<le> (cursor s + 1) mod capacity s"
    using assms(2,3) by (simp_all add: zmod_le_nonneg_dividend)
  show "i = cursor s"
    using assms(1) by (auto simp: ReplayBuffer_add_def Let_def split: option.splits if_splits)
  show "0 \<le> cursor s' \<and> cursor s' \<le> int (length (storage s'))"
    using assms m
    by (auto simp: ReplayBuffer_add_def py_setitem_def Let_def split: option.splits if_splits)
  show "\<forall>j. length (storage s) \<le> j \<and> j < length (storage s') \<longrightarrow> int j = i"
    using assms
    by (auto simp: ReplayBuffer_add_def py_setitem_def Let_def split: option.splits if_splits)
  show "length (storage s) \<le> length (storage s')"
    using assms
    by (auto simp: ReplayBuffer_add_def py_setitem_def Let_def split: option.splits if_splits)
qed

lemma ReplayBuffer_extend_nonempty:
  "ReplayBuffer_extend s xs = (Inr ix, s') \<Longrightarrow> ix \<noteq> []"
  by (auto simp: ReplayBuffer_extend_def Let_def split: prod.splits if_splits)

lemma ReplayBuffer_extend_slots:
  assumes run: "ReplayBuffer_extend s xs = (Inr ix, s')"
    and cap: "0 < capacity s" and c0: "0 \<le> cursor s" and cl: "cursor s \<le> int (length (storage s))"
  shows "0 \<le> cursor s' \<and> cursor s' \<le> int (length (storage s'))"
    and "\<forall>j. length (storage s) \<le> j \<and> j < length (storage s') \<longrightarrow> int j \<in> set ix"
proof -
  let ?n = "int (length (storage s))" and ?b = "int (length xs)"
  from run have b: "0 < ?b"
    by (auto simp: ReplayBuffer_extend_def split: if_splits)
  consider (fits) "?n + ?b \<le> capacity s"
    | (fill) "\<not> ?n + ?b \<le> capacity s" "?n < capacity s"
    | (full) "\<not> ?n + ?b \<le> capacity s" "\<not> ?n < capacity s" "cursor s + ?b \<le> capacity s"
    | (wrap) "\<not> ?n + ?b \<le> capacity s" "\<not> ?n < capacity s" "\<not> cursor s + ?b \<le> capacity s"
    by blast
  then have "(0 \<le> cursor s' \<and> cursor s' \<le> int (length (storage s'))) \<and>
    (\<forall>j. length (storage s) \<le> j \<and> j < length (storage s') \<longrightarrow> int j \<in> set ix)"
  proof cases
    case fits
    with run b have s': "s' = s\<lparr>storage := storage s @ xs, cursor := (cursor s + ?b) mod capacity s\<rparr>"
      and ix: "ix = [?n..?n + ?b - 1]"
      by (auto simp: ReplayBuffer_extend_def Let_def)
    have "(cursor s + ?b) mod capacity s \<le> cursor s + ?b"
      using c0 b cap by (simp add: zmod_le_nonneg_dividend)
    then show ?thesis
      using cap cl by (auto simp: s' ix)
  next
    case fill
    let ?d = "capacity s - ?n"
    from run b fill obtain st where
      loop: "store_loop (storage s @ take (nat ?d) xs) 0 (drop (nat ?d) xs) = (True, st)"
      and s': "s' = s\<lparr>storage := st, cursor := ?b - ?d\<rparr>"
      and ix: "ix = [?n..capacity s - 1] @ [0..?b - ?d - 1]"
      by (auto simp: ReplayBuffer_extend_def Let_def split: prod.splits if_splits)
    have len: "length st = length (storage s @ take (nat ?d) xs)"
      using loop by (rule store_loop_length)
    have "drop (nat ?d) xs \<noteq> []" using fill by simp
    from store_loop_fits[OF loop _ this] len
    have "int (length (drop (nat ?d) xs)) \<le> int (length st)" by simp
    then have "?b - ?d \<le> int (length st)" using fill by simp
    moreover have "int (length st) = capacity s" using len fill by simp
    ultimately show ?thesis
      using fill by (auto simp: s' ix)
  next
    case full
    from run b full obtain st where
      loop: "store_loop (storage s) (cursor s) xs = (True, st)"
      and s': "s' = s\<lparr>storage := st, cursor := (cursor s + ?b) mod capacity s\<rparr>"
      by (auto simp: ReplayBuffer_extend_def Let_def split: prod.splits if_splits)
    have len: "length st = length (storage s)"
      using loop by (rule store_loop_length)
    have "(cursor s + ?b) mod capacity s < capacity s" "0 \<le> (cursor s + ?b) mod capacity s"
      using cap by simp_all
    then show ?thesis
      using full len by (auto simp: s')
  next
    case wrap
    let ?d = "capacity s - cursor s"
    from run b wrap obtain st1 st2 where d: "\<not> ?d < 0"
      and loop1: "store_loop (storage s) (cursor s) (take (nat ?d) xs) = (True, st1)"
      and loop2: "store_loop st1 0 (drop (nat ?d) xs) = (True, st2)"
      and s': "s' = s\<lparr>storage := st2, cursor := ?b - ?d\<rparr>"
      by (auto simp: ReplayBuffer_extend_def Let_def split: prod.splits if_splits)
    have len: "length st2 = length (storage s)"
      using store_loop_length[OF loop1] store_loop_length[OF loop2] by simp
    have "drop (nat ?d) xs \<noteq> []" using wrap d by simp
    from store_loop_fits[OF loop2 _ this]
    have "int (length (drop (nat ?d) xs)) \<le> int (length st1)" by simp
    then have "?b - ?d \<le> int (length st2)"
      using wrap d store_loop_length[OF loop2] by simp
    then show ?thesis
      using wrap len by (auto simp: s')
  qed
  then show "0 \<le> cursor s' \<and> cursor s' \<le> int (length (storage s'))"
    and "\<forall>j. length (storage s) \<le> j \<and> j < length (storage s') \<longrightarrow> int j \<in> set ix"
    by blast+
qed

lemma ring_write_nonempty:
  "ring_write s data = (Inr ix, s') \<Longrightarrow> index_list ix \<noteq> []"
  by (auto simp: ring_write_def index_list_def split: sum.splits prod.splits
           dest: ReplayBuffer_extend_nonempty)

lemma ring_write_slots:
  assumes "ring_write s data = (Inr ix, s')"
    and "0 < capacity s" and "0 \<le> cursor s" and "cursor s \<le> int (length (storage s))"
  shows "0 \<le> cursor s' \<and> cursor s' \<le> int (length (storage s'))"
    and "\<forall>j. length (storage s) \<le> j \<and> j < length (storage s') \<longrightarrow> int j \<in> set (index_list ix)"
proof -
  show "0 \<le> cursor s' \<and> cursor s' \<le> int (length (storage s'))"
  proof (cases data)
    case (Inl x)
    with assms(1) obtain i where "ReplayBuffer_add s x = (Inr i, s')"
      by (auto simp: ring_write_def split: prod.splits sum.splits)
    from ReplayBuffer_add_slots(2)[OF this assms(2-4)] show ?thesis .
  next
    case (Inr xs)
    with assms(1) obtain js where "ReplayBuffer_extend s xs = (Inr js, s')"
      by (auto simp: ring_write_def split: prod.splits sum.splits)
    from ReplayBuffer_extend_slots(1)[OF this assms(2-4)] show ?thesis .
  qed
  show "\<forall>j. length (storage s) \<le> j \<and> j < length (storage s') \<longrightarrow> int j \<in> set (index_list ix)"
  proof (cases data)
    case (Inl x)
    with assms(1) obtain i where run: "ReplayBuffer_add s x = (Inr i, s')" and ix: "ix = IInt i"
      by (auto simp: ring_write_def split: prod.splits sum.splits)
    from ReplayBuffer_add_slots(3)[OF run assms(2-4)] show ?thesis
      by (simp add: ix index_list_def)
  next
    case (Inr xs)
    with assms(1) obtain js where run: "ReplayBuffer_extend s xs = (Inr js, s')" and ix: "ix = IArr js"
      by (auto simp: ring_write_def split: prod.splits sum.splits)
    from ReplayBuffer_extend_slots(2)[OF run assms(2-4)] show ?thesis
      by (simp add: ix index_list_def)
  qed
qed

subsection \<open>Leaves written by the tree operations\<close>

text \<open>After the two trees are written, every leaf pair is either unchanged or in step.\<close>

lemma map_of_Finite:
  "map_of (rev (map (\<lambda>(i, v). (i, Finite v)) ps)) k = map_option Finite (map_of (rev ps) k)"
proof -
  have "rev (map (\<lambda>(i, v). (i, Finite v)) ps) = map (\<lambda>(i, v). (i, Finite v)) (rev ps)"
    by (simp add: rev_map)
  then show ?thesis by (simp add: map_of_map)
qed

lemma write_trees_leaf:
  assumes run: "write_trees s ix q = Inr s'" and j: "j < length (sum_tree s)"
    and same: "length (min_tree s) = length (sum_tree s)"
  shows "(case map_of (rev (leaf_writes ix q)) (int j) of
            Some v \<Rightarrow> sum_tree s' ! j = v \<and> min_tree s' ! j = Finite v
          | None \<Rightarrow> sum_tree s' ! j = sum_tree s ! j \<and> min_tree s' ! j = min_tree s ! j)"
proof -
  let ?ps = "leaf_writes ix q"
  from run obtain st mt where st: "tree_set_many (sum_tree s) ?ps = Some st"
    and mt: "tree_set_many (min_tree s) (map (\<lambda>(i, v). (i, Finite v)) ?ps) = Some mt"
    and s': "s' = s\<lparr>sum_tree := st, min_tree := mt\<rparr>"
    by (auto simp: write_trees_def split: option.splits)
  from j same have j': "j < length (min_tree s)" by simp
  show ?thesis
    using tree_set_many_nth[OF st j] tree_set_many_nth[OF mt j']
    by (simp add: s' map_of_Finite split: option.splits)
qed

lemma write_trees_frame:
  assumes "write_trees s ix q = Inr s'"
  shows "\<exists>st mt. s' = s\<lparr>sum_tree := st, min_tree := mt\<rparr> \<and>
           length st = length (sum_tree s) \<and> length mt = length (min_tree s)"
  using assms
  by (auto simp: write_trees_def split: option.splits dest: tree_set_many_length)

lemma leaf_writes_cover:
  assumes "priority_shape_error q ix = None" and "i \<in> set (index_list ix)"
  shows "i \<in> fst ` set (leaf_writes ix q)"
proof (cases q)
  case (PFloat v)
  with assms(2) show ?thesis by (force simp: leaf_writes_def)
next
  case (PArray ps)
  show ?thesis
  proof (cases "length ps = 1")
    case True
    with PArray assms(2) show ?thesis by (force simp: leaf_writes_def)
  next
    case False
    with PArray assms(1) have "length ps = length (index_list ix)"
      by (auto simp: priority_shape_error_def index_list_def split: slots.splits if_splits)
    then have "map fst (zip (index_list ix) ps) = index_list ix" by simp
    then have "fst ` set (zip (index_list ix) ps) = set (index_list ix)"
      by (metis set_map)
    with PArray False assms(2) show ?thesis by (simp add: leaf_writes_def)
  qed
qed

lemma write_trees_valid:
  assumes "write_trees s ix q = Inr s'" and "i \<in> fst ` set (leaf_writes ix q)"
  shows "0 \<le> i \<and> i < int (length (sum_tree s))"
proof -
  from assms(1) obtain st where st: "tree_set_many (sum_tree s) (leaf_writes ix q) = Some st"
    by (auto simp: write_trees_def split: option.splits)
  from assms(2) obtain v where "(i, v) \<in> set (leaf_writes ix q)" by auto
  from tree_set_many_valid[OF st this] show ?thesis .
qed


subsection \<open>The invariant holds in every reachable state\<close>

lemma stored_priority_frame:
  "stored_priority s p = (r, s1) \<Longrightarrow> \<exists>m. s1 = s\<lparr>max_priority := m\<rparr>"
proof (cases p)
  case None
  assume "stored_priority s p = (r, s1)"
  with None have "s1 = s"
    by (auto simp: stored_priority_def split: option.splits)
  then have "s1 = s\<lparr>max_priority := max_priority s\<rparr>" by simp
  then show ?thesis ..
next
  case (Some a)
  assume "stored_priority s p = (r, s1)"
  with Some have "s1 = s \<or> s1 = s\<lparr>max_priority := max (max_priority s) (the (np_max a))\<rparr>"
    by (auto simp: stored_priority_def Let_def split: option.splits)
  then show ?thesis
  proof
    assume "s1 = s"
    then have "s1 = s\<lparr>max_priority := max_priority s\<rparr>" by simp
    then show ?thesis ..
  qed blast
qed

text \<open>A call of \<^verbatim>\<open>add\<close> or \<^verbatim>\<open>extend\<close> that raises has not written the trees; the ring and
  \<^verbatim>\<open>max_priority\<close> may have changed.\<close>

lemma add_or_extend_failure_keeps_trees:
  assumes "add_or_extend s data p = (Inl e, s')"
  shows "sum_tree s' = sum_tree s \<and> min_tree s' = min_tree s"
proof (cases "stored_priority s p")
  case (Pair r s1)
  from stored_priority_frame[OF Pair] obtain m where s1: "s1 = s\<lparr>max_priority := m\<rparr>" ..
  show ?thesis
  proof (cases r)
    case (Inl e1)
    with Pair assms have "s' = s1" by (simp add: add_or_extend_def)
    with s1 show ?thesis by simp
  next
    case (Inr q)
    obtain r2 s2 where ring: "ring_write s1 data = (r2, s2)" by (cases "ring_write s1 data")
    have s2: "s2 = s1\<lparr>storage := storage s2, cursor := cursor s2\<rparr>"
      using ring by (rule ring_write_frame)
    have "s' = s2"
      using assms Pair Inr ring
      by (auto simp: add_or_extend_def split: sum.splits option.splits)
    moreover have "sum_tree s2 = sum_tree s1" "min_tree s2 = min_tree s1"
      by (subst s2, simp)+
    ultimately show ?thesis by (simp add: s1)
  qed
qed

lemma tracked_after_writes:
  assumes inv: "slots_tracked s1"
    and ring: "s2 = s1\<lparr>storage := st, cursor := c\<rparr>"
    and cur: "0 \<le> c \<and> c \<le> int (length st)"
    and new: "\<forall>j. length (storage s1) \<le> j \<and> j < length st \<longrightarrow>
                int j \<in> fst ` set (leaf_writes ix q)"
    and trees: "write_trees s2 ix q = Inr s'"
  shows "slots_tracked s'"
proof -
  from write_trees_frame[OF trees] obtain t m where
    s': "s' = s2\<lparr>sum_tree := t, min_tree := m\<rparr>"
    and lt: "length t = length (sum_tree s2)" and lm: "length m = length (min_tree s2)"
    by blast
  have len1: "length (sum_tree s1) = nat (capacity s1)" "length (min_tree s1) = nat (capacity s1)"
    using inv by (simp_all add: slots_tracked_def)
  have same: "length (min_tree s2) = length (sum_tree s2)"
    using len1 by (simp add: ring)
  have "j < nat (capacity s1) \<and> m ! j = Finite (t ! j)" if j: "j < length st" for j
  proof -
    have bound: "j < nat (capacity s1)"
    proof (cases "j < length (storage s1)")
      case True
      with inv show ?thesis by (simp add: slots_tracked_def)
    next
      case False
      with new j have "int j \<in> fst ` set (leaf_writes ix q)" by simp
      from write_trees_valid[OF trees this] have "int j < int (length (sum_tree s2))" by simp
      then have "j < length (sum_tree s1)" by (simp add: ring)
      then show ?thesis using len1 by simp
    qed
    then have j2: "j < length (sum_tree s2)" using len1 by (simp add: ring)
    show ?thesis
    proof (cases "map_of (rev (leaf_writes ix q)) (int j)")
      case (Some v)
      with write_trees_leaf[OF trees j2 same] bound show ?thesis by (simp add: s')
    next
      case None
      then have "int j \<notin> fst ` set (leaf_writes ix q)"
        by (simp add: map_of_eq_None_iff)
      with new j have "j < length (storage s1)" by (meson not_le_imp_less)
      with inv have "min_tree s1 ! j = Finite (sum_tree s1 ! j)"
        by (simp add: slots_tracked_def)
      with None write_trees_leaf[OF trees j2 same] bound show ?thesis
        by (simp add: s' ring)
    qed
  qed
  then show ?thesis
    using len1 lt lm cur by (simp add: slots_tracked_def s' ring)
qed

lemma add_or_extend_tracked:
  assumes inv: "slots_tracked s" and run: "add_or_extend s data p = (Inr ix, s')"
  shows "slots_tracked s' \<and> beta s' = beta s"
proof -
  from run obtain q s1 s2 where sp: "stored_priority s p = (Inr q, s1)"
    and ring: "ring_write s1 data = (Inr ix, s2)"
    and shape: "priority_shape_error q ix = None"
    and trees: "write_trees s2 ix q = Inr s'"
    by (auto simp: add_or_extend_def split: prod.splits sum.splits option.splits)
  from stored_priority_frame[OF sp] obtain m where s1: "s1 = s\<lparr>max_priority := m\<rparr>" ..
  with inv have inv1: "slots_tracked s1" by (simp add: slots_tracked_def)
  have s2: "s2 = s1\<lparr>storage := storage s2, cursor := cursor s2\<rparr>"
    using ring by (rule ring_write_frame)
  from ring_write_nonempty[OF ring] obtain i where i: "i \<in> set (index_list ix)"
    by (cases "index_list ix") auto
  have "i \<in> fst ` set (leaf_writes ix q)"
    using shape i by (rule leaf_writes_cover)
  from write_trees_valid[OF trees this] have "0 < length (sum_tree s2)" by linarith
  moreover have "length (sum_tree s2) = nat (capacity s1)"
    using inv1 by (subst s2) (simp add: slots_tracked_def)
  ultimately have cap: "0 < capacity s1" by simp
  have c1: "0 \<le> cursor s1" "cursor s1 \<le> int (length (storage s1))"
    using inv1 by (simp_all add: slots_tracked_def)
  have cur: "0 \<le> cursor s2 \<and> cursor s2 \<le> int (length (storage s2))"
    using ring cap c1 by (rule ring_write_slots(1))
  have "\<forall>j. length (storage s1) \<le> j \<and> j < length (storage s2) \<longrightarrow>
            int j \<in> set (index_list ix)"
    using ring cap c1 by (rule ring_write_slots(2))
  then have new: "\<forall>j. length (storage s1) \<le> j \<and> j < length (storage s2) \<longrightarrow>
            int j \<in> fst ` set (leaf_writes ix q)"
    using leaf_writes_cover[OF shape] by blast
  have "slots_tracked s'"
    using inv1 s2 cur new trees by (rule tracked_after_writes)
  moreover from write_trees_frame[OF trees] have "beta s' = beta s2" by auto
  moreover have "beta s2 = beta s1" by (subst s2) simp
  ultimately show ?thesis by (simp add: s1)
qed

lemma update_priority_tracked:
  assumes inv: "slots_tracked s" and run: "update_priority s ix p = (Inr (), s')"
  shows "slots_tracked s' \<and> beta s' = beta s"
proof -
  from run obtain q mp where
    trees: "write_trees (s\<lparr>max_priority := max (max_priority s) mp\<rparr>) ix q = Inr s'"
    by (auto simp: update_priority_def Let_def split: sum.splits option.splits)
  let ?s1 = "s\<lparr>max_priority := max (max_priority s) mp\<rparr>"
  from inv have inv1: "slots_tracked ?s1" by (simp add: slots_tracked_def)
  have ring: "?s1 = ?s1\<lparr>storage := storage ?s1, cursor := cursor ?s1\<rparr>" by simp
  have cur: "0 \<le> cursor ?s1 \<and> cursor ?s1 \<le> int (length (storage ?s1))"
    using inv1 by (simp add: slots_tracked_def)
  have new: "\<forall>j. length (storage ?s1) \<le> j \<and> j < length (storage ?s1) \<longrightarrow>
            int j \<in> fst ` set (leaf_writes ix q)"
    by auto
  have "slots_tracked s'"
    using inv1 ring cur new trees by (rule tracked_after_writes)
  moreover from write_trees_frame[OF trees] have "beta s' = beta ?s1" by auto
  ultimately show ?thesis by simp
qed

lemma reachable_tracked: "reachable s \<Longrightarrow> slots_tracked s \<and> 0 \<le> beta s"
proof (induction rule: reachable.induct)
  case (init sz a b e s)
  then have "s = \<lparr>storage = [], capacity = sz, cursor = 0, alpha = a, beta = b, eps = e,
              sum_tree = SumSegmentTree sz, min_tree = MinSegmentTree sz, max_priority = 1\<rparr>"
    and "0 \<le> b"
    by (auto simp: PrioritizedReplayBuffer_init_def split: if_splits)
  then show ?case
    by (simp add: slots_tracked_def SumSegmentTree_def MinSegmentTree_def)
next
  case (add s x p ix s')
  then show ?case
    using add_or_extend_tracked[of s "Inl x" p ix s']
    by (simp add: PrioritizedReplayBuffer_add_def)
next
  case (extend s xs p ix s')
  then show ?case
    using add_or_extend_tracked[of s "Inr xs" p ix s']
    by (simp add: PrioritizedReplayBuffer_extend_def)
next
  case (update s ix p s')
  then show ?case
    using update_priority_tracked[of s ix p s'] by simp
qed


subsection \<open>Weights of a sample\<close>

lemma those_map_Some:
  "those (map f xs) = Some ys \<Longrightarrow>
     length ys = length xs \<and> (\<forall>j<length xs. f (xs ! j) = Some (ys ! j))"
proof (induction xs arbitrary: ys)
  case Nil
  then show ?case by simp
next
  case (Cons x xs)
  from Cons.prems obtain y ys' where y: "f x = Some y" and rest: "those (map f xs) = Some ys'"
    and ys: "ys = y # ys'"
    by (auto split: option.splits)
  from Cons.IH[OF rest] y show ?case
    by (auto simp: ys nth_Cons split: nat.splits)
qed

lemma fold_min_mv_Finite: "\<exists>m. fold min_mv xs (Finite a) = Finite m \<and> m \<le> a"
proof (induction xs arbitrary: a)
  case Nil
  then show ?case by simp
next
  case (Cons x xs)
  show ?case
  proof (cases x)
    case (Finite b)
    from Cons.IH[of "min b a"] show ?thesis
      by (auto simp: Finite)
  next
    case PosInf
    with Cons.IH[of a] show ?thesis by simp
  qed
qed

lemma fold_min_mv_le:
  "Finite r \<in> set xs \<Longrightarrow> \<exists>m. fold min_mv xs acc = Finite m \<and> m \<le> r"
proof (induction xs arbitrary: acc)
  case Nil
  then show ?case by simp
next
  case (Cons x xs)
  show ?case
  proof (cases "x = Finite r")
    case True
    obtain a where a: "min_mv x acc = Finite a" and "a \<le> r"
      using True by (cases acc) auto
    with fold_min_mv_Finite[of xs a] show ?thesis by force
  next
    case False
    with Cons.prems have "Finite r \<in> set xs" by simp
    from Cons.IH[OF this] show ?thesis by simp
  qed
qed

text \<open>The instance of the float operations has the properties asked of IEEE division and
  of the power function.\<close>

lemma double_ops_ieee: "ieee_weight_ops double_divide double_power"
proof -
  have big: "(1::real) < 2 ^ 1024" by simp
  have d1: "double_divide (Fin x) (Fin y) = PInf \<or>
        (\<exists>q. double_divide (Fin x) (Fin y) = Fin q \<and> 1 \<le> q)" if "0 < y" "y \<le> x" for x y
  proof -
    from that have q: "1 \<le> x / y" by simp
    from that have y: "y \<noteq> 0" by simp
    have low: "\<not> x / y \<le> - (2 ^ 1024)"
    proof
      assume "x / y \<le> - (2 ^ 1024)"
      also have "- (2 ^ 1024) < (1::real)" by simp
      finally show False using q by simp
    qed
    show ?thesis
    proof (cases "2 ^ 1024 \<le> x / y")
      case True
      with y show ?thesis unfolding double_divide_def by simp
    next
      case False
      with y low q show ?thesis unfolding double_divide_def by simp
    qed
  qed
  have d2: "double_divide (Fin y) (Fin y) = Fin 1" if "0 < y" for y
    using that by (simp add: double_divide_def)
  have p1: "\<exists>w. double_power (Fin q) (Fin e) = Fin w \<and> 0 \<le> w \<and> w \<le> 1"
    if "1 \<le> q" "e \<le> 0" for q e
  proof (cases "e = 0")
    case True
    then show ?thesis by (simp add: double_power_def)
  next
    case False
    from that have q: "0 < q" by linarith
    have "q powr e \<le> q powr 0" using that by (intro powr_mono) simp_all
    then have le: "q powr e \<le> 1" using q by simp
    with big have "\<not> 2 ^ 1024 \<le> q powr e" by linarith
    with False q le show ?thesis by (simp add: double_power_def)
  qed
  have p2: "\<exists>w. double_power PInf (Fin e) = Fin w \<and> 0 \<le> w \<and> w \<le> 1" if "e \<le> 0" for e
    using that by (auto simp: double_power_def)
  have p3: "double_power (Fin 1) (Fin e) = Fin 1" for e
    by (simp add: double_power_def)
  have p4: "double_power x (Fin 0) = Fin 1" for x
    by (simp add: double_power_def)
  show ?thesis
    unfolding ieee_weight_ops_def using d1 d2 p1 p2 p3 p4 by blast
qed

lemma abc_buffer_reachable:
  assumes "0 \<le> b"
  shows "reachable (abc_buffer b)"
proof -
  let ?b0 = "\<lparr>storage = ([] :: char list), capacity = 3, cursor = 0, alpha = 1, beta = b, eps = 0,
      sum_tree = [0, 0, 0], min_tree = [PosInf, PosInf, PosInf], max_priority = 1\<rparr>"
  let ?b1 = "\<lparr>storage = ''A'', capacity = 3, cursor = 1, alpha = 1, beta = b, eps = 0,
      sum_tree = [1, 0, 0], min_tree = [Finite 1, PosInf, PosInf], max_priority = 1\<rparr>"
  let ?b2 = "\<lparr>storage = ''AB'', capacity = 3, cursor = 2, alpha = 1, beta = b, eps = 0,
      sum_tree = [1, 2, 0], min_tree = [Finite 1, Finite 2, PosInf], max_priority = 2\<rparr>"
  have "PrioritizedReplayBuffer_init 3 1 b 0 = Inr ?b0"
    using assms by (simp add: prb_eval numeral_eq_Suc)
  then have r0: "reachable ?b0" by (rule reachable.init)
  have "PrioritizedReplayBuffer_add ?b0 (CHR ''A'') (Some (PFloat 1)) = (Inr (IInt 0), ?b1)"
    by (simp add: prb_eval ring_eval)
  with r0 have r1: "reachable ?b1" by (rule reachable.add)
  have "PrioritizedReplayBuffer_add ?b1 (CHR ''B'') (Some (PFloat 2)) = (Inr (IInt 1), ?b2)"
    by (simp add: prb_eval ring_eval)
  with r1 have r2: "reachable ?b2" by (rule reachable.add)
  have "PrioritizedReplayBuffer_add ?b2 (CHR ''C'') (Some (PFloat 3)) =
          (Inr (IInt 2), abc_buffer b)"
    by (simp add: prb_eval ring_eval abc_buffer_def)
  with r2 show ?thesis by (rule reachable.add)
qed

lemma wide_buffer_reachable: "reachable wide_buffer"
proof -
  let ?b0 = "\<lparr>storage = ([] :: char list), capacity = 2, cursor = 0, alpha = 1, beta = 1, eps = 0,
      sum_tree = [0, 0], min_tree = [PosInf, PosInf], max_priority = 1\<rparr>"
  let ?b1 = "\<lparr>storage = ''A'', capacity = 2, cursor = 1, alpha = 1, beta = 1, eps = 0,
      sum_tree = [1 / 2 ^ 600, 0], min_tree = [Finite (1 / 2 ^ 600), PosInf],
      max_priority = 1\<rparr>"
  have "PrioritizedReplayBuffer_init 2 1 1 0 = Inr ?b0"
    by (simp add: prb_eval numeral_eq_Suc)
  then have r0: "reachable ?b0" by (rule reachable.init)
  have "PrioritizedReplayBuffer_add ?b0 (CHR ''A'') (Some (PFloat (1 / 2 ^ 600))) =
          (Inr (IInt 0), ?b1)"
    by (simp add: prb_eval ring_eval)
  with r0 have r1: "reachable ?b1" by (rule reachable.add)
  have "PrioritizedReplayBuffer_add ?b1 (CHR ''B'') (Some (PFloat (2 ^ 600))) =
          (Inr (IInt 1), wide_buffer)"
    by (simp add: prb_eval ring_eval wide_buffer_def)
  with r1 show ?thesis by (rule reachable.add)
qed

lemmas sample_eval = PrioritizedReplayBuffer_sample_def sum_query_def min_query_def
  leaves_between_def nonpositive_mv_def float_of_min_def tree_get_def py_getitem_def
  double_divide_def double_power_def abc_buffer_def wide_buffer_def powr_minus

text \<open>
  Claim C4 (each weight is \<open>(\<rho> / m)\<^sup>-\<^sup>\<beta>\<close>, lies in \<open>(0, 1]\<close>, and is 1 exactly when the
  sampled slot holds the minimum stored priority). The constructor admits \<open>\<beta> = 0\<close>, and
  then every weight is 1: in the buffer with the stored priorities 1, 2, 3 the mass
  \<open>5/2\<close> samples slot 1, whose stored priority 2 is not the minimum 1, with weight 1.
  The weights are doubles: in the buffer with the stored priorities \<open>2\<^sup>-\<^sup>6\<^sup>0\<^sup>0\<close> and \<open>2\<^sup>6\<^sup>0\<^sup>0\<close>
  the quotient of the two overflows, and the weight of slot 1 is 0.
\<close>

theorem weight_one_off_minimum_and_weight_zero:
  "reachable (abc_buffer 0) \<and>
   PrioritizedReplayBuffer_sample double_divide double_power (abc_buffer 0) [5 / 2] =
     Inr (''B'', [Fin 1], [1]) \<and>
   sum_tree (abc_buffer 0) ! 1 = 2 \<and>
   min_query (min_tree (abc_buffer 0)) 0 (capacity (abc_buffer 0)) = Finite 1 \<and>
   reachable wide_buffer \<and>
   PrioritizedReplayBuffer_sample double_divide double_power wide_buffer [1] =
     Inr (''B'', [Fin 0], [1])"
proof -
  have "reachable (abc_buffer 0)"
    by (rule abc_buffer_reachable) simp
  moreover have "PrioritizedReplayBuffer_sample double_divide double_power wide_buffer [1] =
     Inr (''B'', [Fin 0], [1])"
    by (simp add: sample_eval)
  ultimately show ?thesis
    using wide_buffer_reachable by (simp add: sample_eval)
qed

text \<open>
  Claim C4, amended. Take a state in which the trees have \<open>capacity\<close> leaves and every
  occupied slot carries one finite stored priority, the same in both trees, and
  \<open>\<beta> \<ge> 0\<close>. A \<^verbatim>\<open>_sample\<close> that returns gives one slot, payload and weight per mass; each
  slot is the scanned leaf clamped to the last occupied slot and lies in \<open>[0, len)\<close>;
  the minimum \<open>m\<close> of the min tree is positive and at most the stored priority \<open>\<rho>\<close> of
  the slot; the weight is the double that \<^verbatim>\<open>np.power(\<rho> / m, -\<beta>)\<close> computes. With IEEE
  division and a power function as described at \<open>ieee_weight_ops\<close>, every weight is a
  finite double in \<open>[0, 1]\<close>, and it is 1 whenever the slot holds the minimum stored
  priority or \<open>\<beta> = 0\<close>. A weight can be 0, and a weight of 1 does not tell that the slot
  holds the minimum.
\<close>

theorem sample_weights:
  assumes ops: "ieee_weight_ops fdiv fpow"
    and leaves: "length (sum_tree s) = nat (capacity s)" "length (min_tree s) = nat (capacity s)"
    and tracked: "\<forall>i<length (storage s).
                    i < nat (capacity s) \<and> min_tree s ! i = Finite (sum_tree s ! i)"
    and beta: "0 \<le> beta s"
    and run: "PrioritizedReplayBuffer_sample fdiv fpow s mass = Inr (data, ws, index)"
  shows "length index = length mass \<and> length ws = length mass \<and> length data = length mass \<and>
     (\<forall>j<length mass.
        index ! j = min (int (scan_lower_bound (sum_tree s) (mass ! j)))
                        (int (length (storage s)) - 1) \<and>
        0 \<le> index ! j \<and> index ! j < int (length (storage s)) \<and>
        data ! j = storage s ! nat (index ! j) \<and>
        (\<exists>m. min_query (min_tree s) 0 (capacity s) = Finite m \<and> 0 < m \<and>
             m \<le> sum_tree s ! nat (index ! j) \<and>
             ws ! j = fpow (fdiv (Fin (sum_tree s ! nat (index ! j))) (Fin m)) (Fin (- beta s)) \<and>
             (sum_tree s ! nat (index ! j) = m \<or> beta s = 0 \<longrightarrow> ws ! j = Fin 1)) \<and>
        (\<exists>w. ws ! j = Fin w \<and> 0 \<le> w \<and> w \<le> 1))"
proof -
  let ?pmin = "min_query (min_tree s) 0 (capacity s)"
  let ?n = "int (length (storage s))"
  let ?clamp = "\<lambda>m. min (int (scan_lower_bound (sum_tree s) m)) (?n - 1)"
  let ?wgt = "\<lambda>w. fpow (fdiv (Fin w) (float_of_min ?pmin)) (Fin (- beta s))"
  from run obtain weight where pmin: "\<not> nonpositive_mv ?pmin"
    and index: "index = map ?clamp mass"
    and data: "those (map (py_getitem (storage s)) index) = Some data"
    and weight: "those (map (tree_get (sum_tree s)) index) = Some weight"
    and ws: "ws = map ?wgt weight"
    by (auto simp: PrioritizedReplayBuffer_sample_def Let_def split: if_splits option.splits)
  have l_index: "length index = length mass" by (simp add: index)
  have l_data: "length data = length index"
    and g_data: "\<forall>j<length index. py_getitem (storage s) (index ! j) = Some (data ! j)"
    using those_map_Some[OF data] by simp_all
  have l_weight: "length weight = length index"
    and g_weight: "\<forall>j<length index. tree_get (sum_tree s) (index ! j) = Some (weight ! j)"
    using those_map_Some[OF weight] by simp_all
  have l_ws: "length ws = length weight" by (simp add: ws)
  have whole: "leaves_between (min_tree s) 0 (capacity s) = min_tree s"
    using leaves by (simp add: leaves_between_def)
  from ops have div_ge: "\<And>x y. 0 < y \<Longrightarrow> y \<le> x \<Longrightarrow>
        fdiv (Fin x) (Fin y) = PInf \<or> (\<exists>q. fdiv (Fin x) (Fin y) = Fin q \<and> 1 \<le> q)"
    and div_self: "\<And>y. 0 < y \<Longrightarrow> fdiv (Fin y) (Fin y) = Fin 1"
    and pow_fin: "\<And>q e. 1 \<le> q \<Longrightarrow> e \<le> 0 \<Longrightarrow>
        \<exists>w. fpow (Fin q) (Fin e) = Fin w \<and> 0 \<le> w \<and> w \<le> 1"
    and pow_inf: "\<And>e. e \<le> 0 \<Longrightarrow> \<exists>w. fpow PInf (Fin e) = Fin w \<and> 0 \<le> w \<and> w \<le> 1"
    and pow_one: "\<And>e. fpow (Fin 1) (Fin e) = Fin 1"
    and pow_zero: "\<And>x. fpow x (Fin 0) = Fin 1"
    unfolding ieee_weight_ops_def by blast+
  have slot: "index ! j = ?clamp (mass ! j) \<and>
        0 \<le> index ! j \<and> index ! j < ?n \<and>
        data ! j = storage s ! nat (index ! j) \<and>
        (\<exists>m. ?pmin = Finite m \<and> 0 < m \<and>
             m \<le> sum_tree s ! nat (index ! j) \<and>
             ws ! j = fpow (fdiv (Fin (sum_tree s ! nat (index ! j))) (Fin m)) (Fin (- beta s)) \<and>
             (sum_tree s ! nat (index ! j) = m \<or> beta s = 0 \<longrightarrow> ws ! j = Fin 1)) \<and>
        (\<exists>w. ws ! j = Fin w \<and> 0 \<le> w \<and> w \<le> 1)" if j: "j < length mass" for j
  proof -
    let ?i = "index ! j"
    have i_def: "?i = ?clamp (mass ! j)" using j by (simp add: index)
    from g_data j l_index have got: "py_getitem (storage s) ?i = Some (data ! j)" by simp
    have nonempty: "0 < ?n"
    proof (rule ccontr)
      assume "\<not> 0 < ?n"
      then have "storage s = []" by simp
      with got show False by (simp add: py_getitem_def split: if_splits)
    qed
    then have range: "0 \<le> ?i" "?i < ?n" by (simp_all add: i_def)
    with got have d: "data ! j = storage s ! nat ?i"
      by (simp add: py_getitem_def)
    from range have k: "nat ?i < length (storage s)" by simp
    from tracked k have cap: "nat ?i < nat (capacity s)"
      and sync: "min_tree s ! nat ?i = Finite (sum_tree s ! nat ?i)"
      by blast+
    let ?rho = "sum_tree s ! nat ?i"
    from cap leaves have "nat ?i < length (min_tree s)" by simp
    then have "min_tree s ! nat ?i \<in> set (min_tree s)" by (rule nth_mem)
    with sync have "Finite ?rho \<in> set (min_tree s)" by simp
    from fold_min_mv_le[OF this, of PosInf] obtain m where
      m: "?pmin = Finite m" and m_le: "m \<le> ?rho"
      by (auto simp: min_query_def whole)
    from pmin m have m_pos: "0 < m" by (simp add: nonpositive_mv_def)
    from g_weight j l_index have "tree_get (sum_tree s) ?i = Some (weight ! j)" by simp
    then have w: "weight ! j = ?rho"
      by (auto simp: tree_get_def split: if_splits)
    have wj: "ws ! j = fpow (fdiv (Fin ?rho) (Fin m)) (Fin (- beta s))"
      using j l_index l_weight by (simp add: ws w m float_of_min_def)
    have e: "- beta s \<le> 0" using beta by simp
    have bounded: "\<exists>w. ws ! j = Fin w \<and> 0 \<le> w \<and> w \<le> 1"
      using div_ge[OF m_pos m_le] pow_fin[OF _ e] pow_inf[OF e] by (auto simp: wj)
    have one: "ws ! j = Fin 1" if "?rho = m \<or> beta s = 0"
      using that
    proof
      assume "?rho = m"
      with div_self[OF m_pos] pow_one show ?thesis by (simp add: wj)
    next
      assume "beta s = 0"
      with pow_zero show ?thesis by (simp add: wj)
    qed
    from m m_pos m_le wj one bounded i_def range d show ?thesis
      by blast
  qed
  have "length index = length mass \<and> length ws = length mass \<and> length data = length mass"
    using l_index l_data l_weight l_ws by simp
  with slot show ?thesis by blast
qed

theorem sample_weights_witness:
  "ieee_weight_ops double_divide double_power \<and>
   length (sum_tree (abc_buffer 1)) = nat (capacity (abc_buffer 1)) \<and>
   length (min_tree (abc_buffer 1)) = nat (capacity (abc_buffer 1)) \<and>
   min_tree (abc_buffer 1) ! 2 = Finite (sum_tree (abc_buffer 1) ! 2) \<and>
   0 \<le> beta (abc_buffer 1) \<and>
   PrioritizedReplayBuffer_sample double_divide double_power (abc_buffer 1) [1 / 2, 5 / 2] =
     Inr (''AB'', [Fin 1, Fin (1 / 2)], [0, 1]) \<and>
   min_query (min_tree (abc_buffer 1)) 0 (capacity (abc_buffer 1)) = Finite 1 \<and>
   sum_tree (abc_buffer 1) ! nat ([0, 1] ! 1) = 2 \<and>
   [Fin 1, Fin (1 / 2)] ! 1 = double_power (double_divide (Fin 2) (Fin 1)) (Fin (- 1)) \<and>
   (\<exists>w. [Fin 1, Fin (1 / 2)] ! 1 = Fin w \<and> 0 \<le> w \<and> w \<le> 1) \<and>
   [Fin 1, Fin (1 / 2)] ! 0 = Fin 1"
proof -
  have reach: "reachable (abc_buffer 1)"
    by (rule abc_buffer_reachable) simp
  have inv: "slots_tracked (abc_buffer 1)" and beta: "0 \<le> beta (abc_buffer 1)"
    using reachable_tracked[OF reach] by simp_all
  from inv have leaves: "length (sum_tree (abc_buffer 1)) = nat (capacity (abc_buffer 1))"
    "length (min_tree (abc_buffer 1)) = nat (capacity (abc_buffer 1))"
    and tracked: "\<forall>i<length (storage (abc_buffer 1)).
      i < nat (capacity (abc_buffer 1)) \<and>
      min_tree (abc_buffer 1) ! i = Finite (sum_tree (abc_buffer 1) ! i)"
    by (simp_all add: slots_tracked_def)
  have last: "min_tree (abc_buffer 1) ! 2 = Finite (sum_tree (abc_buffer 1) ! 2)"
    by (simp add: abc_buffer_def)
  have run: "PrioritizedReplayBuffer_sample double_divide double_power (abc_buffer 1)
      [1 / 2, 5 / 2] = Inr (''AB'', [Fin 1, Fin (1 / 2)], [0, 1])"
    by (simp add: sample_eval)
  have m: "min_query (min_tree (abc_buffer 1)) 0 (capacity (abc_buffer 1)) = Finite 1"
    by (simp add: sample_eval)
  have rho: "sum_tree (abc_buffer 1) ! nat ([0, 1] ! 1) = 2"
    by (simp add: abc_buffer_def)
  have b: "beta (abc_buffer 1) = 1" by (simp add: abc_buffer_def)
  note all = sample_weights[OF double_ops_ieee leaves tracked beta run, THEN conjunct2, THEN conjunct2,
      THEN conjunct2, rule_format]
  have j1: "1 < length [1 / 2, 5 / 2 :: real]" and j0: "0 < length [1 / 2, 5 / 2 :: real]"
    by simp_all
  note at1 = all[OF j1, THEN conjunct2, THEN conjunct2, THEN conjunct2, THEN conjunct2]
  note at0 = all[OF j0, THEN conjunct2, THEN conjunct2, THEN conjunct2, THEN conjunct2]
  from at1[THEN conjunct1] obtain m' where
    m': "min_query (min_tree (abc_buffer 1)) 0 (capacity (abc_buffer 1)) = Finite m'"
    and w1: "[Fin 1, Fin (1 / 2)] ! 1 =
      double_power (double_divide (Fin (sum_tree (abc_buffer 1) ! nat ([0, 1] ! 1))) (Fin m'))
        (Fin (- beta (abc_buffer 1)))"
    by blast
  from m m' have "m' = 1" by simp
  with w1 have eq: "[Fin 1, Fin (1 / 2)] ! 1 =
      double_power (double_divide (Fin 2) (Fin 1)) (Fin (- 1))"
    unfolding rho b by simp
  have ex: "\<exists>w. [Fin 1, Fin (1 / 2)] ! 1 = Fin w \<and> 0 \<le> w \<and> w \<le> 1"
    by (rule at1[THEN conjunct2])
  from at0[THEN conjunct1] obtain m0 where
    "min_query (min_tree (abc_buffer 1)) 0 (capacity (abc_buffer 1)) = Finite m0"
    and "sum_tree (abc_buffer 1) ! nat ([0, 1] ! 0) = m0 \<or> beta (abc_buffer 1) = 0 \<longrightarrow>
         [Fin 1, Fin (1 / 2)] ! 0 = Fin 1"
    by blast
  with m have first: "[Fin 1, Fin (1 / 2)] ! 0 = Fin 1"
    by (simp add: abc_buffer_def)
  from double_ops_ieee leaves last beta run m rho eq ex first show ?thesis by blast
qed

end
